theory Spec2Isabelle
  imports Complex_Main "HOL-Library.Char_ord" "HOL-Library.List_Lexorder"
begin

section \<open>The host graph\<close>

text \<open>
  Modelled from the spec: the host graph (graphology) is not part of the sources; the
  index only consumes its capability (spec section 6): \<open>order\<close>, \<open>size\<close>, node iteration
  in a fixed order, per-node incident-edge iteration, \<open>opposite\<close> and the lookup of a
  numeric edge attribute. A graph is a list of node keys and a list of edges; an edge
  records its two endpoint keys and the value of the weight attribute, \<open>None\<close> when the
  attribute is missing, not a number or NaN. Node keys are strings, compared as JavaScript
  compares strings (lexicographically). Numbers are exact reals.
\<close>

record edge =
  source :: string
  target :: string
  weightAttr :: "real option"

record graph =
  gnodes :: "string list"
  gedges :: "edge list"

definition graph_order :: "graph \<Rightarrow> nat" where
  "graph_order g = length (gnodes g)"

definition graph_size :: "graph \<Rightarrow> nat" where
  "graph_size g = length (gedges g)"

text \<open>\<open>graph.edges(node)\<close>: the edges incident to the node, a self-loop listed once.\<close>

definition graph_edges :: "graph \<Rightarrow> string \<Rightarrow> edge list" where
  "graph_edges g node = filter (\<lambda>e. source e = node \<or> target e = node) (gedges g)"

definition graph_outEdges :: "graph \<Rightarrow> string \<Rightarrow> edge list" where
  "graph_outEdges g node = filter (\<lambda>e. source e = node) (gedges g)"

definition graph_inEdges :: "graph \<Rightarrow> string \<Rightarrow> edge list" where
  "graph_inEdges g node = filter (\<lambda>e. target e = node) (gedges g)"

definition graph_opposite :: "string \<Rightarrow> edge \<Rightarrow> string" where
  "graph_opposite node e = (if source e = node then target e else source e)"

section \<open>The undirected index\<close>

record options =
  opt_keepCounts :: bool
  opt_keepDendrogram :: bool
  opt_weighted :: bool

text \<open>
  The fields of \<open>UndirectedLouvainIndex\<close>. JavaScript numbers are exact reals, so the cells
  of a Float64Array are finite reals (arithmetic on doubles is exact on integer-valued
  weights below \<open>2^53\<close>, as in the unweighted mode; rounding is not modelled, and neither is
  a cell that holds NaN or an infinity). The cells of the index-typed arrays are naturals:
  the helper \<open>typed.getPointerArray\<close> that selects their element type is not part of the
  sources, and the node ids and entry offsets stored in them are taken to fit. \<open>cap\<close> is
  the number of values of the element type selected for \<open>graph.order\<close>, a parameter of the
  constructor: the arithmetic that \<open>move\<close> stores into \<open>counts\<close> wraps modulo \<open>cap\<close>. The
  conditions under which the stores into \<open>starts\<close> fit and the weights that \<open>zoomOut\<close> reads
  exist are \<open>starts_fit\<close> and \<open>weight_reads_defined\<close> below.
\<close>

record louvain =
  C :: nat
  M :: real
  E :: nat
  level :: nat
  graph :: graph
  nodes :: "string list"
  keepCounts :: bool
  keepDendrogram :: bool
  cap :: nat
  neighborhood :: "nat list"
  weights :: "real list"
  loops :: "real list"
  starts :: "nat list"
  belongings :: "nat list"
  dendrogram :: "nat list list"
  mapping :: "nat list option"
  counts :: "nat list option"
  internalWeights :: "real list"
  totalWeights :: "real list"

definition getWeight :: "bool \<Rightarrow> edge \<Rightarrow> real" where
  "getWeight weighted e =
     (if \<not> weighted then 1
      else case weightAttr e of None \<Rightarrow> 1 | Some weight \<Rightarrow> weight)"

text \<open>\<open>ids[key]\<close> stored into an index-typed array: a missing key stores 0.\<close>

definition lookup_id :: "(string \<rightharpoonup> nat) \<Rightarrow> string \<Rightarrow> nat" where
  "lookup_id ids k = (case ids k of None \<Rightarrow> 0 | Some i \<Rightarrow> i)"

definition make_ids :: "string list \<Rightarrow> (string \<rightharpoonup> nat)" where
  "make_ids ns = fold (\<lambda>i ids. ids(ns ! i \<mapsto> i)) [0..<length ns] Map.empty"

text \<open>The body of the inner loop of the constructor, over the edges of one node.\<close>

fun add_edge ::
  "(string \<rightharpoonup> nat) \<Rightarrow> bool \<Rightarrow> string \<Rightarrow> nat \<Rightarrow> edge \<Rightarrow> nat \<times> louvain \<Rightarrow> nat \<times> louvain" where
  "add_edge ids weighted node i e (n, s) =
     (let neighbor = graph_opposite node e;
          weight = getWeight weighted e;
          s1 = (if node < neighbor then s\<lparr>M := M s + weight\<rparr> else s);
          s2 = s1\<lparr>totalWeights := (totalWeights s1)[i := totalWeights s1 ! i + weight]\<rparr>;
          s3 = s2\<lparr>neighborhood := (neighborhood s2)[n := lookup_id ids neighbor]\<rparr>;
          s4 = s3\<lparr>weights := (weights s3)[n := weight]\<rparr>
      in (n + 1, s4))"

text \<open>The body of the outer loop of the constructor, for node index \<open>i\<close>.\<close>

fun add_node ::
  "graph \<Rightarrow> (string \<rightharpoonup> nat) \<Rightarrow> bool \<Rightarrow> nat \<Rightarrow> nat \<times> louvain \<Rightarrow> nat \<times> louvain" where
  "add_node g ids weighted i (n, s) =
     (let node = nodes s ! i;
          es = graph_edges g node;
          s1 = s\<lparr>starts := (starts s)[i := n]\<rparr>;
          s2 = s1\<lparr>belongings := (belongings s1)[i := i]\<rparr>;
          s3 = (if keepCounts s2
                then s2\<lparr>counts := map_option (\<lambda>cs. cs[i := 1]) (counts s2)\<rparr> else s2)
      in fold (add_edge ids weighted node i) es (n, s3))"

definition UndirectedLouvainIndex :: "nat \<Rightarrow> graph \<Rightarrow> options \<Rightarrow> louvain" where
  "UndirectedLouvainIndex ptr g opts =
     (let upperBound = graph_size g * 2;
          ord = graph_order g;
          s0 = \<lparr>C = ord, M = 0, E = graph_size g * 2, level = 0, graph = g,
                nodes = gnodes g,
                keepCounts = opt_keepCounts opts,
                keepDendrogram = opt_keepDendrogram opts,
                cap = ptr,
                neighborhood = replicate upperBound 0,
                weights = replicate upperBound 0,
                loops = replicate ord 0,
                starts = replicate (ord + 1) 0,
                belongings = replicate ord 0,
                dendrogram = [],
                mapping = None,
                counts = (if opt_keepCounts opts then Some (replicate ord 0) else None),
                internalWeights = replicate ord 0,
                totalWeights = replicate ord 0\<rparr>;
          ids = make_ids (nodes s0);
          s1 = snd (fold (add_node g ids (opt_weighted opts)) [0..<ord] (0, s0));
          s2 = s1\<lparr>starts := (starts s1)[ord := upperBound]\<rparr>
      in if keepDendrogram s2
         then s2\<lparr>dendrogram := dendrogram s2 @ [belongings s2]\<rparr>
         else s2\<lparr>mapping := Some (belongings s2)\<rparr>)"

subsection \<open>move and expensiveMove\<close>

text \<open>A store into a cell of \<open>counts\<close>: the typed array keeps the value modulo \<open>cap\<close>.\<close>

definition wrap :: "nat \<Rightarrow> int \<Rightarrow> nat" where
  "wrap c v = nat (v mod int c)"

definition move :: "nat \<Rightarrow> real \<Rightarrow> real \<Rightarrow> real \<Rightarrow> nat \<Rightarrow> louvain \<Rightarrow> louvain" where
  "move i degree currentCommunityDegree targetCommunityDegree targetCommunity s =
     (let currentCommunity = belongings s ! i;
          lps = loops s ! i;
          s1 = s\<lparr>totalWeights := (totalWeights s)
                  [currentCommunity := totalWeights s ! currentCommunity - (degree + lps)]\<rparr>;
          s2 = s1\<lparr>totalWeights := (totalWeights s1)
                  [targetCommunity := totalWeights s1 ! targetCommunity + (degree + lps)]\<rparr>;
          s3 = s2\<lparr>internalWeights := (internalWeights s2)
                  [currentCommunity := internalWeights s2 ! currentCommunity
                                        - (currentCommunityDegree * 2 + lps)]\<rparr>;
          s4 = s3\<lparr>internalWeights := (internalWeights s3)
                  [targetCommunity := internalWeights s3 ! targetCommunity
                                        + (targetCommunityDegree * 2 + lps)]\<rparr>;
          s5 = s4\<lparr>belongings := (belongings s4)[i := targetCommunity]\<rparr>
      in if keepCounts s5
         then (case counts s5 of
                 None \<Rightarrow> s5
               | Some cs \<Rightarrow>
                   let count = cs ! i;
                       cs1 = cs[currentCommunity :=
                                  wrap (cap s5) (int (cs ! currentCommunity) - int count)];
                       cs2 = cs1[targetCommunity :=
                                  wrap (cap s5) (int (cs1 ! targetCommunity) + int count)]
                   in s5\<lparr>counts := Some cs2\<rparr>)
         else s5)"

text \<open>The body of the scan of \<open>expensiveMove\<close> over the block of node \<open>i\<close>; the accumulator
  is (degree, currentCommunityDegree, targetCommunityDegree).\<close>

fun scan_entry ::
  "louvain \<Rightarrow> nat \<Rightarrow> nat \<Rightarrow> nat \<Rightarrow> real \<times> real \<times> real \<Rightarrow> real \<times> real \<times> real" where
  "scan_entry s c ci ofs (degree, currentCommunityDegree, targetCommunityDegree) =
     (let n = neighborhood s ! ofs;
          weight = weights s ! ofs;
          cn = belongings s ! n
      in (degree + weight,
          (if c = cn then currentCommunityDegree + weight else currentCommunityDegree),
          (if cn = ci then targetCommunityDegree + weight else targetCommunityDegree)))"

definition expensiveMove :: "nat \<Rightarrow> nat \<Rightarrow> louvain \<Rightarrow> louvain" where
  "expensiveMove i ci s =
     (let c = belongings s ! i;
          (degree, currentCommunityDegree, targetCommunityDegree) =
             fold (scan_entry s c ci) [starts s ! i ..< starts s ! (i + 1)] (0, 0, 0)
      in move i degree currentCommunityDegree targetCommunityDegree ci s)"

subsection \<open>zoomOut\<close>

text \<open>
  One entry of the local \<open>inducedGraph\<close>. The object \<open>adj\<close> has integer-like keys, which
  JavaScript enumerates in ascending numeric order: it is an association list kept in
  ascending key order.
\<close>

record induced =
  adj :: "(nat \<times> real) list"
  ig_counts :: "nat option"
  ig_totalWeights :: real
  ig_internalWeights :: real

text \<open>\<open>if (!(cj in adj)) adj[cj] = 0; adj[cj] += w\<close>\<close>

fun adj_add :: "nat \<Rightarrow> real \<Rightarrow> (nat \<times> real) list \<Rightarrow> (nat \<times> real) list" where
  "adj_add cj w [] = [(cj, 0 + w)]"
| "adj_add cj w ((k, v) # r) =
     (if cj = k then (k, v + w) # r
      else if cj < k then (cj, 0 + w) # (k, v) # r
      else (k, v) # adj_add cj w r)"

text \<open>
  Renumbering communities, the body of the first loop. \<open>inducedGraph\<close> receives the keys
  0, 1, ... in this order, so it is a list and the local \<open>C\<close> is its length.
\<close>

fun renumber ::
  "nat \<Rightarrow> (nat \<rightharpoonup> nat) \<times> induced list \<times> louvain \<Rightarrow> (nat \<rightharpoonup> nat) \<times> induced list \<times> louvain" where
  "renumber i (newLabels, inducedGraph, s) =
     (let ci = belongings s ! i;
          (newLabels1, inducedGraph1) =
            (if newLabels ci = None
             then (newLabels(ci \<mapsto> length inducedGraph),
                   inducedGraph @
                     [\<lparr>adj = [],
                       ig_counts = (if keepCounts s
                                    then map_option (\<lambda>cs. cs ! ci) (counts s) else None),
                       ig_totalWeights = totalWeights s ! ci,
                       ig_internalWeights = internalWeights s ! ci\<rparr>])
             else (newLabels, inducedGraph))
      in (newLabels1, inducedGraph1,
          s\<lparr>belongings := (belongings s)[i := the (newLabels1 ci)]\<rparr>))"

text \<open>Actualizing the dendrogram, or the flattened mapping.\<close>

definition actualize :: "louvain \<Rightarrow> louvain" where
  "actualize s =
     (let N = length (nodes s)
      in if keepDendrogram s
         then (let currentLevel = dendrogram s ! level s;
                   nextLevel = map (\<lambda>i. belongings s ! (currentLevel ! i)) [0..<N]
               in s\<lparr>dendrogram := dendrogram s @ [nextLevel]\<rparr>)
         else s\<lparr>mapping :=
                  map_option (fold (\<lambda>i m. m[i := belongings s ! (m ! i)]) [0..<N])
                    (mapping s)\<rparr>)"

text \<open>Building the induced graph matrix: the inner and the outer loop body. The weight
  added is \<open>this.weights[n]\<close>, read at the neighbour's node id. Where \<open>n\<close> is not below the
  length of \<open>weights\<close> the code reads \<open>undefined\<close> and accumulates NaN, which a real cell does
  not represent: \<open>weight_reads_defined\<close> below excludes it.\<close>

fun induce_entry ::
  "louvain \<Rightarrow> nat \<Rightarrow> nat \<Rightarrow> induced list \<times> nat \<Rightarrow> induced list \<times> nat" where
  "induce_entry s ci j (inducedGraph, En) =
     (let n = neighborhood s ! j;
          cj = belongings s ! n
      in if ci = cj then (inducedGraph, En)
         else (inducedGraph[ci := (inducedGraph ! ci)
                 \<lparr>adj := adj_add cj (weights s ! n) (adj (inducedGraph ! ci))\<rparr>],
               En + 1))"

fun induce_node ::
  "louvain \<Rightarrow> nat \<Rightarrow> induced list \<times> nat \<Rightarrow> induced list \<times> nat" where
  "induce_node s i (inducedGraph, En) =
     (let ci = belongings s ! i
      in fold (induce_entry s ci) [starts s ! i ..< starts s ! (i + 1)] (inducedGraph, En))"

text \<open>Rewriting the neighborhood: the inner and the outer loop body.\<close>

fun write_entry ::
  "nat \<times> real \<Rightarrow> nat \<times> louvain \<Rightarrow> nat \<times> louvain" where
  "write_entry (cj, w) (n, s) =
     (n + 1, s\<lparr>neighborhood := (neighborhood s)[n := cj],
               weights := (weights s)[n := w]\<rparr>)"

fun rewrite_node ::
  "induced list \<Rightarrow> nat \<Rightarrow> nat \<times> louvain \<Rightarrow> nat \<times> louvain" where
  "rewrite_node inducedGraph ci (n, s) =
     (let data = inducedGraph ! ci;
          s1 = s\<lparr>totalWeights := (totalWeights s)[ci := ig_totalWeights data]\<rparr>;
          s2 = s1\<lparr>internalWeights := (internalWeights s1)[ci := ig_internalWeights data]\<rparr>;
          s3 = s2\<lparr>loops := (loops s2)[ci := ig_internalWeights data]\<rparr>;
          s4 = (if keepCounts s3
                then (case (counts s3, ig_counts data) of
                        (Some cs, Some k) \<Rightarrow> s3\<lparr>counts := Some (cs[ci := k])\<rparr>
                      | _ \<Rightarrow> s3)
                else s3);
          s5 = s4\<lparr>starts := (starts s4)[ci := n]\<rparr>;
          s6 = s5\<lparr>belongings := (belongings s5)[ci := ci]\<rparr>
      in fold write_entry (adj data) (n, s6))"

definition zoomOut :: "louvain \<Rightarrow> louvain" where
  "zoomOut s =
     (let (newLabels, inducedGraph0, s1) = fold renumber [0..<C s] (Map.empty, [], s);
          Cn = length inducedGraph0;
          s2 = actualize s1;
          (inducedGraph, En) = fold (induce_node s2) [0..<C s2] (inducedGraph0, 0);
          s3 = s2\<lparr>C := Cn, E := En\<rparr>;
          s4 = snd (fold (rewrite_node inducedGraph) [0..<Cn] (0, s3));
          s5 = s4\<lparr>starts := (starts s4)[Cn := En]\<rparr>
      in s5\<lparr>level := level s5 + 1\<rparr>)"

subsection \<open>Scores and export\<close>

text \<open>
  \<open>modularity\<close> and \<open>delta\<close> divide by \<open>M\<close>. A division by zero gives NaN or an infinity in
  JavaScript, and so does every sum, difference, product or quotient by a finite number
  that has such an operand; a read past the end of a Float64Array gives \<open>undefined\<close>, which
  arithmetic turns into NaN. The numbers of these two functions are \<open>real option\<close>, with
  \<open>None\<close> for a result that is not a finite number. The divisors are \<open>M * 2\<close> and
  \<open>2 * M * M\<close>, computed from the finite \<open>M\<close>.
\<close>

definition cell :: "real list \<Rightarrow> nat \<Rightarrow> real option" where
  "cell xs i = (if i < length xs then Some (xs ! i) else None)"

definition num_add :: "real option \<Rightarrow> real option \<Rightarrow> real option" where
  "num_add a b = (case (a, b) of (Some x, Some y) \<Rightarrow> Some (x + y) | _ \<Rightarrow> None)"

definition num_sub :: "real option \<Rightarrow> real option \<Rightarrow> real option" where
  "num_sub a b = (case (a, b) of (Some x, Some y) \<Rightarrow> Some (x - y) | _ \<Rightarrow> None)"

definition num_mul :: "real option \<Rightarrow> real option \<Rightarrow> real option" where
  "num_mul a b = (case (a, b) of (Some x, Some y) \<Rightarrow> Some (x * y) | _ \<Rightarrow> None)"

definition num_div :: "real option \<Rightarrow> real \<Rightarrow> real option" where
  "num_div a y = (case a of Some x \<Rightarrow> (if y = 0 then None else Some (x / y)) | None \<Rightarrow> None)"

text \<open>\<open>Math.pow(x, 2)\<close>\<close>

definition num_pow2 :: "real option \<Rightarrow> real option" where
  "num_pow2 a = map_option (\<lambda>x. x ^ 2) a"

definition modularity :: "louvain \<Rightarrow> real option" where
  "modularity s =
     (let M2 = M s * 2
      in fold (\<lambda>i Q. num_add Q
                 (num_sub (num_div (cell (internalWeights s) i) M2)
                    (num_pow2 (num_div (cell (totalWeights s) i) M2))))
           [0..<C s] (Some 0))"

definition delta :: "louvain \<Rightarrow> real \<Rightarrow> real \<Rightarrow> nat \<Rightarrow> real option" where
  "delta s degree targetCommunityDegree targetCommunity =
     (let m = M s;
          targetCommunityTotalWeight = cell (totalWeights s) targetCommunity
      in num_sub (num_div (Some targetCommunityDegree) m)
           (num_div (num_mul targetCommunityTotalWeight (Some degree)) (2 * m * m)))"

text \<open>
  \<open>collect(level)\<close>; the argument is \<open>None\<close> when the caller passes none. The result is
  \<open>None\<close> where the source fails on \<open>mapping.length\<close> of a missing mapping.
\<close>

definition collect :: "louvain \<Rightarrow> nat option \<Rightarrow> (string \<rightharpoonup> nat) option" where
  "collect s lvl =
     (let l = (case lvl of None \<Rightarrow> level s | Some k \<Rightarrow> k);
          mp = (if keepDendrogram s
                then (if l < length (dendrogram s) then Some (dendrogram s ! l) else None)
                else mapping s)
      in map_option
           (\<lambda>m. fold (\<lambda>i ob. ob(nodes s ! i \<mapsto> m ! i)) [0..<length m] Map.empty) mp)"

section \<open>The directed index\<close>

record dlouvain =
  d_C :: nat
  d_M :: real
  d_E :: nat
  d_level :: nat
  d_graph :: graph
  d_nodes :: "string list"
  d_keepCounts :: bool
  d_keepDendrogram :: bool
  d_neighborhood :: "nat list"
  d_weights :: "real list"
  d_loops :: "real list"
  d_starts :: "nat list"
  d_offsets :: "nat list"
  d_belongings :: "nat list"
  d_dendrogram :: "nat list list"
  d_mapping :: "nat list option"
  d_counts :: "nat list option"
  d_internalWeights :: "real list"
  d_totalInWeights :: "real list"
  d_totalOutWeights :: "real list"

text \<open>The constructor's loop over the outgoing edges of node \<open>i\<close>, then over the incoming
  ones.\<close>

fun add_out_edge ::
  "(string \<rightharpoonup> nat) \<Rightarrow> bool \<Rightarrow> string \<Rightarrow> nat \<Rightarrow> edge \<Rightarrow> nat \<times> dlouvain \<Rightarrow> nat \<times> dlouvain" where
  "add_out_edge ids weighted node i e (n, s) =
     (let neighbor = graph_opposite node e;
          weight = getWeight weighted e;
          s1 = s\<lparr>d_M := d_M s + weight\<rparr>;
          s2 = s1\<lparr>d_totalOutWeights :=
                   (d_totalOutWeights s1)[i := d_totalOutWeights s1 ! i + weight]\<rparr>;
          s3 = s2\<lparr>d_totalInWeights :=
                   (d_totalInWeights s2)[lookup_id ids neighbor :=
                      d_totalInWeights s2 ! lookup_id ids neighbor + weight]\<rparr>;
          s4 = s3\<lparr>d_neighborhood := (d_neighborhood s3)[n := lookup_id ids neighbor]\<rparr>;
          s5 = s4\<lparr>d_weights := (d_weights s4)[n := weight]\<rparr>
      in (n + 1, s5))"

fun add_in_edge ::
  "(string \<rightharpoonup> nat) \<Rightarrow> bool \<Rightarrow> string \<Rightarrow> edge \<Rightarrow> nat \<times> dlouvain \<Rightarrow> nat \<times> dlouvain" where
  "add_in_edge ids weighted node e (n, s) =
     (let neighbor = graph_opposite node e;
          weight = getWeight weighted e;
          s1 = s\<lparr>d_neighborhood := (d_neighborhood s)[n := lookup_id ids neighbor]\<rparr>;
          s2 = s1\<lparr>d_weights := (d_weights s1)[n := weight]\<rparr>
      in (n + 1, s2))"

fun d_add_node ::
  "graph \<Rightarrow> (string \<rightharpoonup> nat) \<Rightarrow> bool \<Rightarrow> nat \<Rightarrow> nat \<times> dlouvain \<Rightarrow> nat \<times> dlouvain" where
  "d_add_node g ids weighted i (n, s) =
     (let node = d_nodes s ! i;
          s1 = s\<lparr>d_starts := (d_starts s)[i := n]\<rparr>;
          s2 = s1\<lparr>d_belongings := (d_belongings s1)[i := i]\<rparr>;
          s3 = (if d_keepCounts s2
                then s2\<lparr>d_counts := map_option (\<lambda>cs. cs[i := 1]) (d_counts s2)\<rparr> else s2);
          (n1, s4) = fold (add_out_edge ids weighted node i) (graph_outEdges g node) (n, s3);
          s5 = s4\<lparr>d_offsets := (d_offsets s4)[i := n1]\<rparr>
      in fold (add_in_edge ids weighted node) (graph_inEdges g node) (n1, s5))"

definition DirectedLouvainIndex :: "graph \<Rightarrow> options \<Rightarrow> dlouvain" where
  "DirectedLouvainIndex g opts =
     (let upperBound = graph_size g * 2;
          ord = graph_order g;
          s0 = \<lparr>d_C = ord, d_M = 0, d_E = graph_size g * 2, d_level = 0, d_graph = g,
                d_nodes = gnodes g,
                d_keepCounts = opt_keepCounts opts,
                d_keepDendrogram = opt_keepDendrogram opts,
                d_neighborhood = replicate upperBound 0,
                d_weights = replicate upperBound 0,
                d_loops = replicate ord 0,
                d_starts = replicate (ord + 1) 0,
                d_offsets = replicate ord 0,
                d_belongings = replicate ord 0,
                d_dendrogram = [],
                d_mapping = None,
                d_counts = (if opt_keepCounts opts then Some (replicate ord 0) else None),
                d_internalWeights = replicate ord 0,
                d_totalInWeights = replicate ord 0,
                d_totalOutWeights = replicate ord 0\<rparr>;
          ids = make_ids (d_nodes s0);
          s1 = snd (fold (d_add_node g ids (opt_weighted opts)) [0..<ord] (0, s0));
          s2 = s1\<lparr>d_starts := (d_starts s1)[ord := upperBound]\<rparr>
      in if d_keepDendrogram s2
         then s2\<lparr>d_dendrogram := d_dendrogram s2 @ [d_belongings s2]\<rparr>
         else s2\<lparr>d_mapping := Some (d_belongings s2)\<rparr>)"

definition outBounds :: "dlouvain \<Rightarrow> nat \<Rightarrow> nat \<times> nat" where
  "outBounds s i = (d_starts s ! i, d_offsets s ! i)"

definition inBounds :: "dlouvain \<Rightarrow> nat \<Rightarrow> nat \<times> nat" where
  "inBounds s i = (d_offsets s ! i, d_starts s ! (i + 1))"

subsection \<open>zoomOut of the directed index\<close>

record d_induced =
  inAdj :: "(nat \<times> real) list"
  outAdj :: "(nat \<times> real) list"
  dg_counts :: "nat option"
  dg_totalInWeights :: real
  dg_totalOutWeights :: real
  dg_internalWeights :: real

fun d_renumber ::
  "nat \<Rightarrow> (nat \<rightharpoonup> nat) \<times> d_induced list \<times> dlouvain
       \<Rightarrow> (nat \<rightharpoonup> nat) \<times> d_induced list \<times> dlouvain" where
  "d_renumber i (newLabels, inducedGraph, s) =
     (let ci = d_belongings s ! i;
          (newLabels1, inducedGraph1) =
            (if newLabels ci = None
             then (newLabels(ci \<mapsto> length inducedGraph),
                   inducedGraph @
                     [\<lparr>inAdj = [], outAdj = [],
                       dg_counts = (if d_keepCounts s
                                    then map_option (\<lambda>cs. cs ! ci) (d_counts s) else None),
                       dg_totalInWeights = d_totalInWeights s ! ci,
                       dg_totalOutWeights = d_totalOutWeights s ! ci,
                       dg_internalWeights = d_internalWeights s ! ci\<rparr>])
             else (newLabels, inducedGraph))
      in (newLabels1, inducedGraph1,
          s\<lparr>d_belongings := (d_belongings s)[i := the (newLabels1 ci)]\<rparr>))"

definition d_actualize :: "dlouvain \<Rightarrow> dlouvain" where
  "d_actualize s =
     (let N = length (d_nodes s)
      in if d_keepDendrogram s
         then (let currentLevel = d_dendrogram s ! d_level s;
                   nextLevel = map (\<lambda>i. d_belongings s ! (currentLevel ! i)) [0..<N]
               in s\<lparr>d_dendrogram := d_dendrogram s @ [nextLevel]\<rparr>)
         else s\<lparr>d_mapping :=
                  map_option (fold (\<lambda>i m. m[i := d_belongings s ! (m ! i)]) [0..<N])
                    (d_mapping s)\<rparr>)"

text \<open>
  \<open>out = j < offset; adj = out === 0 ? inAdj : outAdj\<close>: \<open>out\<close> is a boolean, and a boolean
  is never strictly equal to the number 0, so the test is false on every entry.
\<close>

definition strict_equals_zero :: "bool \<Rightarrow> bool" where
  "strict_equals_zero out = False"

fun d_induce_entry ::
  "dlouvain \<Rightarrow> nat \<Rightarrow> nat \<Rightarrow> nat \<Rightarrow> d_induced list \<times> nat \<Rightarrow> d_induced list \<times> nat" where
  "d_induce_entry s ci offset j (inducedGraph, En) =
     (let n = d_neighborhood s ! j;
          cj = d_belongings s ! n;
          out = (j < offset);
          data = inducedGraph ! ci
      in if ci = cj then (inducedGraph, En)
         else if strict_equals_zero out
         then (inducedGraph[ci := data\<lparr>inAdj := adj_add cj (d_weights s ! n) (inAdj data)\<rparr>],
               En + 1)
         else (inducedGraph[ci := data\<lparr>outAdj := adj_add cj (d_weights s ! n) (outAdj data)\<rparr>],
               En + 1))"

fun d_induce_node ::
  "dlouvain \<Rightarrow> nat \<Rightarrow> d_induced list \<times> nat \<Rightarrow> d_induced list \<times> nat" where
  "d_induce_node s i (inducedGraph, En) =
     (let ci = d_belongings s ! i;
          offset = d_offsets s ! i
      in fold (d_induce_entry s ci offset) [d_starts s ! i ..< d_starts s ! (i + 1)]
           (inducedGraph, En))"

fun d_write_entry ::
  "nat \<times> real \<Rightarrow> nat \<times> dlouvain \<Rightarrow> nat \<times> dlouvain" where
  "d_write_entry (cj, w) (n, s) =
     (n + 1, s\<lparr>d_neighborhood := (d_neighborhood s)[n := cj],
               d_weights := (d_weights s)[n := w]\<rparr>)"

fun d_rewrite_node ::
  "d_induced list \<Rightarrow> nat \<Rightarrow> nat \<times> dlouvain \<Rightarrow> nat \<times> dlouvain" where
  "d_rewrite_node inducedGraph ci (n, s) =
     (let data = inducedGraph ! ci;
          s1 = s\<lparr>d_totalInWeights := (d_totalInWeights s)[ci := dg_totalInWeights data]\<rparr>;
          s2 = s1\<lparr>d_totalOutWeights := (d_totalOutWeights s1)[ci := dg_totalOutWeights data]\<rparr>;
          s3 = s2\<lparr>d_internalWeights := (d_internalWeights s2)[ci := dg_internalWeights data]\<rparr>;
          s4 = s3\<lparr>d_loops := (d_loops s3)[ci := dg_internalWeights data]\<rparr>;
          s5 = (if d_keepCounts s4
                then (case (d_counts s4, dg_counts data) of
                        (Some cs, Some k) \<Rightarrow> s4\<lparr>d_counts := Some (cs[ci := k])\<rparr>
                      | _ \<Rightarrow> s4)
                else s4);
          s6 = s5\<lparr>d_starts := (d_starts s5)[ci := n]\<rparr>;
          s7 = s6\<lparr>d_belongings := (d_belongings s6)[ci := ci]\<rparr>;
          (n1, s8) = fold d_write_entry (inAdj data) (n, s7);
          s9 = s8\<lparr>d_offsets := (d_offsets s8)[ci := n1]\<rparr>
      in fold d_write_entry (outAdj data) (n1, s9))"

definition d_zoomOut :: "dlouvain \<Rightarrow> dlouvain" where
  "d_zoomOut s =
     (let (newLabels, inducedGraph0, s1) = fold d_renumber [0..<d_C s] (Map.empty, [], s);
          Cn = length inducedGraph0;
          s2 = d_actualize s1;
          (inducedGraph, En) = fold (d_induce_node s2) [0..<d_C s2] (inducedGraph0, 0);
          s3 = s2\<lparr>d_C := Cn, d_E := En\<rparr>;
          s4 = snd (fold (d_rewrite_node inducedGraph) [0..<Cn] (0, s3));
          s5 = s4\<lparr>d_starts := (d_starts s4)[Cn := En]\<rparr>
      in s5\<lparr>d_level := d_level s5 + 1\<rparr>)"

section \<open>Notions used to state the properties\<close>

text \<open>An undirected input graph is well formed when its node keys are distinct and every
  edge joins two of its nodes.\<close>

definition wf_graph :: "graph \<Rightarrow> bool" where
  "wf_graph g \<longleftrightarrow>
     distinct (gnodes g) \<and>
     (\<forall>e \<in> set (gedges g). source e \<in> set (gnodes g) \<and> target e \<in> set (gnodes g))"

definition no_self_loops :: "graph \<Rightarrow> bool" where
  "no_self_loops g \<longleftrightarrow> (\<forall>e \<in> set (gedges g). source e \<noteq> target e)"

definition total_edge_weight :: "bool \<Rightarrow> graph \<Rightarrow> real" where
  "total_edge_weight weighted g = sum_list (map (getWeight weighted) (gedges g))"

text \<open>The weighted degree of a node: the sum of the weights of its incident edges.\<close>

definition weighted_degree :: "bool \<Rightarrow> graph \<Rightarrow> string \<Rightarrow> real" where
  "weighted_degree weighted g node =
     sum_list (map (getWeight weighted) (graph_edges g node))"

text \<open>The sum of \<open>totalWeights\<close> over the current communities \<open>0..C-1\<close>.\<close>

definition sum_totalWeights :: "louvain \<Rightarrow> real" where
  "sum_totalWeights s = sum_list (map (\<lambda>c. totalWeights s ! c) [0..<C s])"

subsection \<open>Closed forms of the constructor's loops\<close>

text \<open>Writing the values \<open>vs\<close> into consecutive cells from position \<open>n\<close> on.\<close>

fun write_seq :: "nat \<Rightarrow> 'a list \<Rightarrow> 'a list \<Rightarrow> 'a list" where
  "write_seq n [] xs = xs"
| "write_seq n (v # vs) xs = write_seq (Suc n) vs (xs[n := v])"

text \<open>What the visit of one node adds to \<open>M\<close>: the weights of its incident edges whose
  other endpoint has the larger key.\<close>

definition counted_here :: "bool \<Rightarrow> graph \<Rightarrow> string \<Rightarrow> real" where
  "counted_here weighted g node =
     sum_list (map (\<lambda>e. if node < graph_opposite node e then getWeight weighted e else 0)
                 (graph_edges g node))"

definition neighbor_ids :: "graph \<Rightarrow> (string \<rightharpoonup> nat) \<Rightarrow> string \<Rightarrow> nat list" where
  "neighbor_ids g ids node =
     map (\<lambda>e. lookup_id ids (graph_opposite node e)) (graph_edges g node)"

text \<open>The number of entries written before the block of node \<open>k\<close>.\<close>

definition entry_offset :: "graph \<Rightarrow> nat \<Rightarrow> nat" where
  "entry_offset g k = sum_list (map (\<lambda>i. length (graph_edges g (gnodes g ! i))) [0..<k])"

text \<open>\<open>bounds(i)\<close>, and the (neighbour, weight) entries stored at positions \<open>lo..hi-1\<close>.\<close>

definition bounds :: "louvain \<Rightarrow> nat \<Rightarrow> nat \<times> nat" where
  "bounds s i = (starts s ! i, starts s ! (i + 1))"

definition entries :: "louvain \<Rightarrow> nat \<Rightarrow> nat \<Rightarrow> (nat \<times> real) list" where
  "entries s lo hi = map (\<lambda>ofs. (neighborhood s ! ofs, weights s ! ofs)) [lo..<hi]"

subsection \<open>Sequences of operations\<close>

datatype op = Move nat real real real nat | ExpensiveMove nat nat | ZoomOut

fun apply_op :: "op \<Rightarrow> louvain \<Rightarrow> louvain" where
  "apply_op (Move i degree currentCommunityDegree targetCommunityDegree targetCommunity) s =
     move i degree currentCommunityDegree targetCommunityDegree targetCommunity s"
| "apply_op (ExpensiveMove i ci) s = expensiveMove i ci s"
| "apply_op ZoomOut s = zoomOut s"

fun run :: "op list \<Rightarrow> louvain \<Rightarrow> louvain" where
  "run [] s = s"
| "run (x # xs) s = run xs (apply_op x s)"

text \<open>An operation is in range when its node index and its target community are below
  the current \<open>C\<close>.\<close>

fun in_range :: "louvain \<Rightarrow> op \<Rightarrow> bool" where
  "in_range s (Move i degree currentCommunityDegree targetCommunityDegree targetCommunity) =
     (i < C s \<and> targetCommunity < C s)"
| "in_range s (ExpensiveMove i ci) = (i < C s \<and> ci < C s)"
| "in_range s ZoomOut = True"

fun valid :: "op list \<Rightarrow> louvain \<Rightarrow> bool" where
  "valid [] s = True"
| "valid (x # xs) s = (in_range s x \<and> valid xs (apply_op x s))"

fun is_move :: "op \<Rightarrow> bool" where
  "is_move ZoomOut = False"
| "is_move x = True"

fun is_expensiveMove :: "op \<Rightarrow> bool" where
  "is_expensiveMove (ExpensiveMove i ci) = True"
| "is_expensiveMove x = False"

subsection \<open>Notions used in the proofs about moves and coarsening\<close>

text \<open>The three sums that \<open>expensiveMove\<close> computes over the block of node \<open>i\<close>.\<close>

definition scan :: "louvain \<Rightarrow> nat \<Rightarrow> nat \<Rightarrow> real \<times> real \<times> real" where
  "scan s i ci =
     fold (scan_entry s (belongings s ! i) ci) [starts s ! i ..< starts s ! (i + 1)] (0, 0, 0)"

text \<open>The communities of the nodes are in range.\<close>

definition in_bounds :: "louvain \<Rightarrow> bool" where
  "in_bounds s \<longleftrightarrow>
     C s \<le> length (totalWeights s) \<and> C s \<le> length (belongings s) \<and>
     (\<forall>i < C s. belongings s ! i < C s)"

text \<open>The entry that the renumbering loop adds to \<open>inducedGraph\<close> for a community \<open>ci\<close>
  met for the first time.\<close>

definition fresh :: "louvain \<Rightarrow> nat \<Rightarrow> induced" where
  "fresh s ci =
     \<lparr>adj = [],
      ig_counts = (if keepCounts s then map_option (\<lambda>cs. cs ! ci) (counts s) else None),
      ig_totalWeights = totalWeights s ! ci,
      ig_internalWeights = internalWeights s ! ci\<rparr>"

text \<open>The belongings as the renumbering loop of \<open>zoomOut\<close> leaves them.\<close>

definition renumbered :: "louvain \<Rightarrow> nat list" where
  "renumbered s = belongings (snd (snd (fold renumber [0..<C s] (Map.empty, [], s))))"

text \<open>Two versions of the local \<open>inducedGraph\<close> that differ in the \<open>adj\<close> fields only.\<close>

definition same_totals :: "induced list \<Rightarrow> induced list \<Rightarrow> bool" where
  "same_totals ig' ig \<longleftrightarrow>
     length ig' = length ig \<and> map ig_totalWeights ig' = map ig_totalWeights ig \<and>
     map ig_internalWeights ig' = map ig_internalWeights ig \<and> map ig_counts ig' = map ig_counts ig"

text \<open>The counts cell written by the rewrite of community \<open>ci\<close>.\<close>

definition rewrite_counts :: "bool \<Rightarrow> induced list \<Rightarrow> nat \<Rightarrow> nat list option \<Rightarrow> nat list option" where
  "rewrite_counts keep ig ci cs =
     (if keep
      then (case (cs, ig_counts (ig ! ci)) of (Some c, Some k) \<Rightarrow> Some (c[ci := k]) | _ \<Rightarrow> cs)
      else cs)"

text \<open>The number of entries that the rewrite loop writes before the block of community
  \<open>k\<close>.\<close>

definition induced_offset :: "induced list \<Rightarrow> nat \<Rightarrow> nat" where
  "induced_offset ig k = sum_list (map (\<lambda>ci. length (adj (ig ! ci))) [0..<k])"

text \<open>The state of a level-0 index whose moves were all made with the nodes' adjacency sums:
  the total weight of a community is the sum of the degrees of its members.\<close>

definition matched :: "bool \<Rightarrow> graph \<Rightarrow> louvain \<Rightarrow> bool" where
  "matched w g s \<longleftrightarrow>
     in_bounds s \<and> C s = length (gnodes g) \<and>
     (\<forall>i < C s. loops s ! i = 0 \<and>
        sum_list (map snd (entries s (starts s ! i) (starts s ! (i + 1))))
          = weighted_degree w g (gnodes g ! i)) \<and>
     (\<forall>c < C s. totalWeights s ! c
        = sum_list (map (\<lambda>i. if belongings s ! i = c then weighted_degree w g (gnodes g ! i) else 0)
            [0..<C s]))"

text \<open>The per-level belongings arrays of a run: at each \<open>zoomOut\<close>, the belongings after the
  renumbering of the communities.\<close>

fun levels :: "op list \<Rightarrow> louvain \<Rightarrow> nat list list" where
  "levels [] s = []"
| "levels (ZoomOut # ops) s = renumbered s # levels ops (zoomOut s)"
| "levels (x # ops) s = levels ops (apply_op x s)"

text \<open>The composition of per-level belongings arrays, from the identity on the \<open>N\<close> nodes.\<close>

definition compose_levels :: "nat \<Rightarrow> nat list list \<Rightarrow> nat list" where
  "compose_levels N bs = fold (\<lambda>b m. map (\<lambda>x. b ! x) m) bs [0..<N]"

text \<open>The object that maps the \<open>i\<close>-th node key to the \<open>i\<close>-th cell of a mapping array.\<close>

definition as_object :: "string list \<Rightarrow> nat list \<Rightarrow> (string \<rightharpoonup> nat)" where
  "as_object ns m = fold (\<lambda>i ob. ob(ns ! i \<mapsto> m ! i)) [0..<length m] Map.empty"

text \<open>The dendrogram, or the flattened mapping, agrees with the per-level belongings
  \<open>h\<close> of the coarsenings made so far.\<close>

definition history_ok :: "nat \<Rightarrow> louvain \<Rightarrow> nat list list \<Rightarrow> bool" where
  "history_ok N s h \<longleftrightarrow>
     level s = length h \<and> length (nodes s) = N \<and>
     (if keepDendrogram s
      then dendrogram s = map (\<lambda>l. compose_levels N (take l h)) [0..<length h + 1]
      else mapping s = Some (compose_levels N h))"

text \<open>Node \<open>i\<close>, of adjacency sum \<open>d\<close>, is alone in its community: the community's total
  weight is \<open>d\<close> plus the node's self-loop weight, its internal weight the self-loop weight.\<close>

definition isolated :: "louvain \<Rightarrow> nat \<Rightarrow> real \<Rightarrow> bool" where
  "isolated s i d \<longleftrightarrow>
     i < length (belongings s) \<and> i < length (loops s) \<and>
     belongings s ! i < C s \<and>
     totalWeights s ! (belongings s ! i) = d + loops s ! i \<and>
     internalWeights s ! (belongings s ! i) = loops s ! i"

subsection \<open>Where the typed arrays agree with the lists\<close>

text \<open>
  \<open>typed.getPointerArray(size)\<close> is not part of the sources. In the library it comes from
  (mnemonist) it selects the narrowest of Uint8Array, Uint16Array and Uint32Array whose
  values include the index \<open>size - 1\<close>; \<open>pointer_values n\<close> is the number of values of
  the element type selected for the size \<open>n\<close>. A store of a larger value into such an
  array wraps.
\<close>

definition pointer_values :: "nat \<Rightarrow> nat" where
  "pointer_values n =
     (if n \<le> 256 then 256 else if n \<le> 65536 then 65536 else 4294967296)"

text \<open>
  \<open>starts\<close> has the element type selected for \<open>upperBound = 2 * size\<close>, and the constructor
  and \<open>zoomOut\<close> store no value above \<open>upperBound\<close> into it: the stores into \<open>starts\<close> do not
  wrap when \<open>upperBound\<close> is a value of that type (which excludes the sizes from \<open>2^31\<close> on).
\<close>

definition starts_fit :: "graph \<Rightarrow> bool" where
  "starts_fit g \<longleftrightarrow> graph_size g * 2 < pointer_values (graph_size g * 2)"

text \<open>
  \<open>zoomOut\<close> reads \<open>this.weights[n]\<close> for every entry of a node \<open>i\<close> whose neighbour \<open>n\<close> lies
  in another community. The read is past the end of \<open>weights\<close> when \<open>n\<close> is not below its
  length; the code then accumulates \<open>undefined\<close>, that is NaN. Every such read finds a
  weight when:
\<close>

definition weight_reads_defined :: "louvain \<Rightarrow> bool" where
  "weight_reads_defined s \<longleftrightarrow>
     list_all (\<lambda>i. list_all (\<lambda>j. belongings s ! i = belongings s ! (neighborhood s ! j)
                                   \<or> neighborhood s ! j < length (weights s))
                      [starts s ! i ..< starts s ! (i + 1)])
       [0..<C s]"

subsection \<open>Example inputs\<close>

definition defaults :: options where
  "defaults = \<lparr>opt_keepCounts = False, opt_keepDendrogram = False, opt_weighted = False\<rparr>"

definition weighted_options :: options where
  "weighted_options =
     \<lparr>opt_keepCounts = False, opt_keepDendrogram = False, opt_weighted = True\<rparr>"

definition dendrogram_options :: options where
  "dendrogram_options =
     \<lparr>opt_keepCounts = True, opt_keepDendrogram = True, opt_weighted = False\<rparr>"

text \<open>One node with a self-loop.\<close>

definition loop_graph :: graph where
  "loop_graph =
     \<lparr>gnodes = [''a''],
      gedges = [\<lparr>source = ''a'', target = ''a'', weightAttr = None\<rparr>]\<rparr>"

text \<open>The path a - b - c with weights 5 and 1.\<close>

definition chain_graph :: graph where
  "chain_graph =
     \<lparr>gnodes = [''a'', ''b'', ''c''],
      gedges = [\<lparr>source = ''a'', target = ''b'', weightAttr = Some 5\<rparr>,
                \<lparr>source = ''b'', target = ''c'', weightAttr = Some 1\<rparr>]\<rparr>"

text \<open>The edges a - c and b - c.\<close>

definition fork_graph :: graph where
  "fork_graph =
     \<lparr>gnodes = [''a'', ''b'', ''c''],
      gedges = [\<lparr>source = ''a'', target = ''c'', weightAttr = None\<rparr>,
                \<lparr>source = ''b'', target = ''c'', weightAttr = None\<rparr>]\<rparr>"

text \<open>The single directed edge a -> b.\<close>

definition arrow_graph :: graph where
  "arrow_graph =
     \<lparr>gnodes = [''a'', ''b''],
      gedges = [\<lparr>source = ''a'', target = ''b'', weightAttr = None\<rparr>]\<rparr>"


section \<open>The constructor\<close>

lemma length_write_seq [simp]: "length (write_seq n vs xs) = length xs"
  by (induction vs arbitrary: n xs) auto

lemma write_seq_append:
  "write_seq n (vs @ ws) xs = write_seq (n + length vs) ws (write_seq n vs xs)"
  by (induction vs arbitrary: n xs) auto

lemma write_seq_closed:
  "n + length vs \<le> length xs \<Longrightarrow>
   write_seq n vs xs = take n xs @ vs @ drop (n + length vs) xs"
proof (induction vs arbitrary: n xs)
  case Nil
  then show ?case by simp
next
  case (Cons v vs)
  then have "n < length xs" by simp
  then have "take (Suc n) (xs[n := v]) = take n xs @ [v]"
    by (simp add: take_Suc_conv_app_nth)
  with Cons show ?case by simp
qed

lemma fold_add_edge:
  assumes "i < length (totalWeights s)"
  shows "fold (add_edge ids w node i) es (n, s) =
     (n + length es,
      s\<lparr>M := M s + sum_list (map (\<lambda>e. if node < graph_opposite node e then getWeight w e else 0) es),
        totalWeights := (totalWeights s)[i := totalWeights s ! i + sum_list (map (getWeight w) es)],
        neighborhood := write_seq n (map (\<lambda>e. lookup_id ids (graph_opposite node e)) es) (neighborhood s),
        weights := write_seq n (map (getWeight w) es) (weights s)\<rparr>)"
  using assms
proof (induction es arbitrary: n s)
  case Nil
  then show ?case by simp
next
  case (Cons e es)
  show ?case
    using Cons.prems
    by (simp add: Cons.IH Let_def add.assoc)
qed

lemma length_fold_update [simp]:
  "length (fold (\<lambda>i xs. xs[i := h i xs]) is xs) = length xs"
  by (induction "is" arbitrary: xs) auto

lemma add_node_eq:
  assumes "i < length (totalWeights s)"
  shows "add_node g ids w i (n, s) =
    (n + length (graph_edges g (nodes s ! i)),
     s\<lparr>starts := (starts s)[i := n],
       belongings := (belongings s)[i := i],
       counts := (if keepCounts s then map_option (\<lambda>cs. cs[i := 1]) (counts s) else counts s),
       M := M s + counted_here w g (nodes s ! i),
       totalWeights := (totalWeights s)[i := totalWeights s ! i + weighted_degree w g (nodes s ! i)],
       neighborhood := write_seq n (neighbor_ids g ids (nodes s ! i)) (neighborhood s),
       weights := write_seq n (map (getWeight w) (graph_edges g (nodes s ! i))) (weights s)\<rparr>)"
  using assms
  by (simp add: Let_def fold_add_edge counted_here_def weighted_degree_def neighbor_ids_def)

lemma fold_add_node:
  assumes "nodes s0 = gnodes g" "k \<le> length (totalWeights s0)"
  shows "fold (add_node g ids w) [0..<k] (0, s0) =
    (entry_offset g k,
     s0\<lparr>starts := fold (\<lambda>i st. st[i := entry_offset g i]) [0..<k] (starts s0),
        belongings := fold (\<lambda>i b. b[i := i]) [0..<k] (belongings s0),
        counts := (if keepCounts s0
                   then map_option (fold (\<lambda>i cs. cs[i := 1]) [0..<k]) (counts s0)
                   else counts s0),
        M := M s0 + sum_list (map (\<lambda>i. counted_here w g (gnodes g ! i)) [0..<k]),
        totalWeights := fold (\<lambda>i tw. tw[i := tw ! i + weighted_degree w g (gnodes g ! i)])
                          [0..<k] (totalWeights s0),
        neighborhood := write_seq 0 (concat (map (\<lambda>i. neighbor_ids g ids (gnodes g ! i)) [0..<k]))
                          (neighborhood s0),
        weights := write_seq 0
                     (concat (map (\<lambda>i. map (getWeight w) (graph_edges g (gnodes g ! i))) [0..<k]))
                     (weights s0)\<rparr>)"
    (is "?L k = (_, ?S k)")
  using assms
proof (induction k)
  case 0
  then show ?case by (simp add: entry_offset_def option.map_id)
next
  case (Suc k)
  have len: "length (concat (map (\<lambda>i. neighbor_ids g ids (gnodes g ! i)) [0..<k])) = entry_offset g k"
    by (simp add: entry_offset_def neighbor_ids_def length_concat comp_def)
  have len2: "length (concat (map (\<lambda>i. map (getWeight w) (graph_edges g (gnodes g ! i))) [0..<k])) = entry_offset g k"
    by (simp add: entry_offset_def length_concat comp_def)
  have off: "entry_offset g (Suc k) = entry_offset g k + length (graph_edges g (gnodes g ! k))"
    by (simp add: entry_offset_def)
  have IH: "?L k = (entry_offset g k, ?S k)"
    using Suc by simp
  have lt: "k < length (totalWeights (?S k))"
    using Suc.prems by simp
  have "?L (Suc k) = add_node g ids w k (?L k)"
    by simp
  also have "\<dots> = add_node g ids w k (entry_offset g k, ?S k)"
    by (simp only: IH)
  finally have step: "?L (Suc k) = add_node g ids w k (entry_offset g k, ?S k)" .
  show ?case
    unfolding step add_node_eq [OF lt]
    using Suc.prems(1)
    by (simp add: write_seq_append len len2 off option.map_comp comp_def)
qed


lemma fold_update_closed:
  "k \<le> length xs \<Longrightarrow>
   fold (\<lambda>i ys. ys[i := h i (ys ! i)]) [0..<k] xs = map (\<lambda>i. h i (xs ! i)) [0..<k] @ drop k xs"
proof (induction k)
  case 0
  then show ?case by simp
next
  case (Suc k)
  then have k: "k < length xs" by simp
  have "(map (\<lambda>i. h i (xs ! i)) [0..<k] @ drop k xs) ! k = xs ! k"
    using k by (simp add: nth_append)
  moreover have "(map (\<lambda>i. h i (xs ! i)) [0..<k] @ drop k xs)[k := v]
      = map (\<lambda>i. h i (xs ! i)) [0..<k] @ v # drop (Suc k) xs" for v
    using k by (simp add: list_update_append Cons_nth_drop_Suc [symmetric])
  ultimately show ?case
    using Suc k by simp
qed

lemma map_nth_upt: "map (\<lambda>i. f (ns ! i)) [0..<length ns] = map f ns"
  by (rule nth_equalityI) simp_all

lemma ctor_totalWeights:
  "totalWeights (UndirectedLouvainIndex ptr g opts)
     = map (weighted_degree (opt_weighted opts) g) (gnodes g)"
proof -
  have "fold (\<lambda>i tw. tw[i := tw ! i + weighted_degree (opt_weighted opts) g (gnodes g ! i)])
          [0..<length (gnodes g)] (replicate (length (gnodes g)) 0)
        = map (\<lambda>i. weighted_degree (opt_weighted opts) g (gnodes g ! i)) [0..<length (gnodes g)]"
    by (subst fold_update_closed) (simp_all cong: map_cong)
  then show ?thesis
    by (simp add: UndirectedLouvainIndex_def Let_def graph_order_def fold_add_node map_nth_upt)
qed

lemma ctor_scalars:
  "C (UndirectedLouvainIndex ptr g opts) = length (gnodes g)"
  "E (UndirectedLouvainIndex ptr g opts) = 2 * graph_size g"
  "level (UndirectedLouvainIndex ptr g opts) = 0"
  "nodes (UndirectedLouvainIndex ptr g opts) = gnodes g"
  "keepDendrogram (UndirectedLouvainIndex ptr g opts) = opt_keepDendrogram opts"
  "keepCounts (UndirectedLouvainIndex ptr g opts) = opt_keepCounts opts"
  "loops (UndirectedLouvainIndex ptr g opts) = replicate (length (gnodes g)) 0"
  "internalWeights (UndirectedLouvainIndex ptr g opts) = replicate (length (gnodes g)) 0"
  by (simp_all add: UndirectedLouvainIndex_def Let_def graph_order_def fold_add_node)

lemma ctor_M:
  "M (UndirectedLouvainIndex ptr g opts)
     = sum_list (map (counted_here (opt_weighted opts) g) (gnodes g))"
  by (simp add: UndirectedLouvainIndex_def Let_def graph_order_def fold_add_node map_nth_upt)

lemma ctor_belongings:
  "belongings (UndirectedLouvainIndex ptr g opts) = [0..<length (gnodes g)]"
proof -
  have "fold (\<lambda>i b. b[i := i]) [0..<length (gnodes g)] (replicate (length (gnodes g)) 0)
        = [0..<length (gnodes g)]"
    using fold_update_closed [of "length (gnodes g)" "replicate (length (gnodes g)) 0" "\<lambda>i _. i"]
    by simp
  then show ?thesis
    by (simp add: UndirectedLouvainIndex_def Let_def graph_order_def fold_add_node)
qed

lemma ctor_history:
  "dendrogram (UndirectedLouvainIndex ptr g opts)
     = (if opt_keepDendrogram opts then [[0..<length (gnodes g)]] else [])"
  "mapping (UndirectedLouvainIndex ptr g opts)
     = (if opt_keepDendrogram opts then None else Some [0..<length (gnodes g)])"
proof -
  have "fold (\<lambda>i b. b[i := i]) [0..<length (gnodes g)] (replicate (length (gnodes g)) 0)
        = [0..<length (gnodes g)]"
    using fold_update_closed [of "length (gnodes g)" "replicate (length (gnodes g)) 0" "\<lambda>i _. i"]
    by simp
  then show "dendrogram (UndirectedLouvainIndex ptr g opts)
     = (if opt_keepDendrogram opts then [[0..<length (gnodes g)]] else [])"
    and "mapping (UndirectedLouvainIndex ptr g opts)
     = (if opt_keepDendrogram opts then None else Some [0..<length (gnodes g)])"
    by (simp_all add: UndirectedLouvainIndex_def Let_def graph_order_def fold_add_node)
qed

lemma ctor_starts:
  "starts (UndirectedLouvainIndex ptr g opts)
     = map (entry_offset g) [0..<length (gnodes g)] @ [graph_size g * 2]"
proof -
  have "drop n (0 # replicate n (0::nat)) = [0]" for n
    by (induction n) simp_all
  then have "fold (\<lambda>i st. st[i := entry_offset g i]) [0..<length (gnodes g)]
          (replicate (length (gnodes g) + 1) 0)
        = map (entry_offset g) [0..<length (gnodes g)] @ [0]"
    using fold_update_closed [of "length (gnodes g)" "replicate (length (gnodes g) + 1) 0"
        "\<lambda>i _. entry_offset g i"]
    by simp
  then show ?thesis
    by (simp add: UndirectedLouvainIndex_def Let_def graph_order_def fold_add_node
        list_update_append)
qed

lemma ctor_neighborhood:
  "neighborhood (UndirectedLouvainIndex ptr g opts)
     = write_seq 0 (concat (map (neighbor_ids g (make_ids (gnodes g))) (gnodes g)))
         (replicate (graph_size g * 2) 0)"
  by (simp add: UndirectedLouvainIndex_def Let_def graph_order_def fold_add_node map_nth_upt)

lemma ctor_weights:
  "weights (UndirectedLouvainIndex ptr g opts)
     = write_seq 0
         (concat (map (\<lambda>x. map (getWeight (opt_weighted opts)) (graph_edges g x)) (gnodes g)))
         (replicate (graph_size g * 2) 0)"
proof -
  have "map (\<lambda>i. map (getWeight (opt_weighted opts)) (graph_edges g (gnodes g ! i)))
          [0..<length (gnodes g)]
        = map (\<lambda>x. map (getWeight (opt_weighted opts)) (graph_edges g x)) (gnodes g)"
    by (rule map_nth_upt)
  then show ?thesis
    by (simp add: UndirectedLouvainIndex_def Let_def graph_order_def fold_add_node)
qed

subsection \<open>Sums over the incident edges of all nodes\<close>

lemma sum_list_swap:
  fixes f :: "'a \<Rightarrow> 'b \<Rightarrow> 'c::comm_monoid_add"
  shows "sum_list (map (\<lambda>x. sum_list (map (f x) (filter (P x) es))) ns)
       = sum_list (map (\<lambda>e. sum_list (map (\<lambda>y. f y e) (filter (\<lambda>y. P y e) ns))) es)"
proof (induction ns)
  case Nil
  then show ?case by simp
next
  case (Cons x ns)
  have "sum_list (map (\<lambda>e. sum_list (map (\<lambda>y. f y e) (filter (\<lambda>y. P y e) (x # ns)))) es)
        = sum_list (map (\<lambda>e. (if P x e then f x e else 0)
                              + sum_list (map (\<lambda>y. f y e) (filter (\<lambda>y. P y e) ns))) es)"
    by (intro arg_cong [where f = sum_list] map_cong refl) simp
  also have "\<dots> = sum_list (map (\<lambda>e. if P x e then f x e else 0) es)
                  + sum_list (map (\<lambda>e. sum_list (map (\<lambda>y. f y e) (filter (\<lambda>y. P y e) ns))) es)"
    by (rule sum_list_addf)
  also have "sum_list (map (\<lambda>e. if P x e then f x e else 0) es)
             = sum_list (map (f x) (filter (P x) es))"
    by (rule sum_list_map_filter' [symmetric])
  finally show ?case
    using Cons by simp
qed

lemma sum_list_two_endpoints:
  fixes h :: "'a \<Rightarrow> 'c::comm_monoid_add"
  assumes "distinct ns" "a \<in> set ns" "b \<in> set ns" "a \<noteq> b"
  shows "sum_list (map h (filter (\<lambda>x. a = x \<or> b = x) ns)) = h a + h b"
proof -
  have "distinct (filter (\<lambda>x. a = x \<or> b = x) ns)"
    using assms(1) by simp
  then have "sum_list (map h (filter (\<lambda>x. a = x \<or> b = x) ns))
             = sum h (set (filter (\<lambda>x. a = x \<or> b = x) ns))"
    by (rule sum_list_distinct_conv_sum_set)
  also have "set (filter (\<lambda>x. a = x \<or> b = x) ns) = {a, b}"
    using assms(2,3) by auto
  also have "sum h {a, b} = h a + h b"
    using assms(4) by simp
  finally show ?thesis .
qed

lemma incident_sum:
  fixes f :: "string \<Rightarrow> edge \<Rightarrow> 'c::comm_monoid_add"
  assumes "wf_graph g" "no_self_loops g"
  shows "sum_list (map (\<lambda>x. sum_list (map (f x) (graph_edges g x))) (gnodes g))
       = sum_list (map (\<lambda>e. f (source e) e + f (target e) e) (gedges g))"
proof -
  have two: "sum_list (map (\<lambda>x. f x e) (filter (\<lambda>x. source e = x \<or> target e = x) (gnodes g)))
        = f (source e) e + f (target e) e" if "e \<in> set (gedges g)" for e
    using assms that
    by (intro sum_list_two_endpoints) (auto simp: wf_graph_def no_self_loops_def)
  have "sum_list (map (\<lambda>x. sum_list (map (f x) (graph_edges g x))) (gnodes g))
        = sum_list (map (\<lambda>x. sum_list (map (f x)
            (filter (\<lambda>e. source e = x \<or> target e = x) (gedges g)))) (gnodes g))"
    by (simp add: graph_edges_def)
  also have "\<dots> = sum_list (map (\<lambda>e. sum_list (map (\<lambda>x. f x e)
            (filter (\<lambda>x. source e = x \<or> target e = x) (gnodes g)))) (gedges g))"
    by (rule sum_list_swap)
  also have "\<dots> = sum_list (map (\<lambda>e. f (source e) e + f (target e) e) (gedges g))"
    by (intro arg_cong [where f = sum_list] map_cong refl two)
  finally show ?thesis .
qed

lemma counted_total:
  assumes "wf_graph g" "no_self_loops g"
  shows "sum_list (map (counted_here w g) (gnodes g)) = total_edge_weight w g"
proof -
  have one: "(if source e < graph_opposite (source e) e then getWeight w e else 0)
        + (if target e < graph_opposite (target e) e then getWeight w e else 0)
        = getWeight w e" if "e \<in> set (gedges g)" for e
    using assms(2) that by (auto simp: no_self_loops_def graph_opposite_def)
  have "sum_list (map (counted_here w g) (gnodes g))
        = sum_list (map (\<lambda>e. (if source e < graph_opposite (source e) e then getWeight w e else 0)
              + (if target e < graph_opposite (target e) e then getWeight w e else 0)) (gedges g))"
    unfolding counted_here_def by (rule incident_sum [OF assms])
  also have "\<dots> = sum_list (map (getWeight w) (gedges g))"
    by (intro arg_cong [where f = sum_list] map_cong refl one)
  finally show ?thesis
    by (simp add: total_edge_weight_def)
qed

lemma degree_total:
  assumes "wf_graph g" "no_self_loops g"
  shows "sum_list (map (weighted_degree w g) (gnodes g)) = 2 * total_edge_weight w g"
proof -
  have "sum_list (map (weighted_degree w g) (gnodes g))
        = sum_list (map (\<lambda>e. getWeight w e + getWeight w e) (gedges g))"
    unfolding weighted_degree_def by (rule incident_sum [OF assms])
  also have "\<dots> = sum_list (map (getWeight w) (gedges g)) + sum_list (map (getWeight w) (gedges g))"
    by (rule sum_list_addf)
  finally show ?thesis
    by (simp add: total_edge_weight_def)
qed

lemma entry_offset_total:
  assumes "wf_graph g" "no_self_loops g"
  shows "entry_offset g (length (gnodes g)) = 2 * graph_size g"
proof -
  have "entry_offset g (length (gnodes g))
        = sum_list (map (\<lambda>x. length (graph_edges g x)) (gnodes g))"
    unfolding entry_offset_def
    by (rule arg_cong [where f = sum_list]) (rule map_nth_upt)
  also have "\<dots> = sum_list (map (\<lambda>x. sum_list (map (\<lambda>e. 1::nat) (graph_edges g x))) (gnodes g))"
    by (simp add: sum_list_triv)
  also have "\<dots> = sum_list (map (\<lambda>e. (1::nat) + 1) (gedges g))"
    by (rule incident_sum [OF assms])
  also have "\<dots> = 2 * graph_size g"
    by (simp add: graph_size_def sum_list_triv)
  finally show ?thesis .
qed

lemma make_ids_prefix:
  assumes "distinct ns" "k \<le> length ns" "j < k"
  shows "fold (\<lambda>i ids. ids(ns ! i \<mapsto> i)) [0..<k] Map.empty (ns ! j) = Some j"
  using assms(2,3)
proof (induction k)
  case 0
  then show ?case by simp
next
  case (Suc k)
  show ?case
  proof (cases "j = k")
    case True
    then show ?thesis by simp
  next
    case False
    with Suc.prems have "j < k" "k < length ns" by simp_all
    moreover from this assms(1) have "ns ! k \<noteq> ns ! j"
      by (simp add: nth_eq_iff_index_eq)
    ultimately show ?thesis
      using Suc.IH by simp
  qed
qed

lemma lookup_make_ids:
  assumes "distinct ns" "k \<in> set ns"
  shows "lookup_id (make_ids ns) k < length ns \<and> ns ! lookup_id (make_ids ns) k = k"
proof -
  from assms(2) obtain j where j: "j < length ns" "ns ! j = k"
    by (auto simp: in_set_conv_nth)
  have "make_ids ns (ns ! j) = Some j"
    unfolding make_ids_def using assms(1) j(1) by (intro make_ids_prefix) simp_all
  with j show ?thesis
    by (simp add: lookup_id_def)
qed

lemma concat_slice:
  assumes "i < length xs" "len = length (f (xs ! i))"
    and "ofs = sum_list (map (\<lambda>j. length (f (xs ! j))) [0..<i])"
  shows "take len (drop ofs (concat (map f xs) @ rest)) = f (xs ! i)"
proof -
  have "take i xs = map (\<lambda>j. xs ! j) [0..<i]"
    using assms by (intro nth_equalityI) simp_all
  then have "map f (take i xs) = map (\<lambda>j. f (xs ! j)) [0..<i]"
    by simp
  then have len: "length (concat (map f (take i xs)))
                  = sum_list (map (\<lambda>j. length (f (xs ! j))) [0..<i])"
    by (simp add: length_concat comp_def)
  have "xs = take i xs @ xs ! i # drop (Suc i) xs"
    using assms by (simp add: id_take_nth_drop [symmetric])
  then have "concat (map f xs) @ rest
             = concat (map f (take i xs)) @ f (xs ! i) @ (concat (map f (drop (Suc i) xs)) @ rest)"
    by (metis append.assoc concat.simps(2) concat_append list.simps(9) map_append)
  then show ?thesis
    by (simp add: len [symmetric] assms(2,3))
qed


lemma entry_offset_le:
  assumes "wf_graph g"
  shows "entry_offset g (length (gnodes g)) \<le> 2 * graph_size g"
proof -
  have two: "length (filter (\<lambda>x. source e = x \<or> target e = x) (gnodes g)) \<le> 2" for e
  proof -
    have "distinct (filter (\<lambda>x. source e = x \<or> target e = x) (gnodes g))"
      using assms by (simp add: wf_graph_def)
    then have "length (filter (\<lambda>x. source e = x \<or> target e = x) (gnodes g))
               = card (set (filter (\<lambda>x. source e = x \<or> target e = x) (gnodes g)))"
      by (rule distinct_card [symmetric])
    also have "\<dots> \<le> card {source e, target e}"
      by (intro card_mono) auto
    also have "\<dots> \<le> 2"
      by (simp add: card_insert_if)
    finally show ?thesis .
  qed
  have "entry_offset g (length (gnodes g))
        = sum_list (map (\<lambda>x. length (graph_edges g x)) (gnodes g))"
    unfolding entry_offset_def
    by (rule arg_cong [where f = sum_list]) (rule map_nth_upt)
  also have "\<dots> = sum_list (map (\<lambda>x. sum_list (map (\<lambda>e. 1::nat)
                       (filter (\<lambda>e. source e = x \<or> target e = x) (gedges g)))) (gnodes g))"
    by (simp add: sum_list_triv graph_edges_def)
  also have "\<dots> = sum_list (map (\<lambda>e. sum_list (map (\<lambda>x. 1::nat)
                       (filter (\<lambda>x. source e = x \<or> target e = x) (gnodes g)))) (gedges g))"
    by (rule sum_list_swap)
  also have "\<dots> = sum_list (map (\<lambda>e. length (filter (\<lambda>x. source e = x \<or> target e = x) (gnodes g)))
                       (gedges g))"
    by (simp add: sum_list_triv)
  also have "\<dots> \<le> sum_list (map (\<lambda>e. 2) (gedges g))"
    by (intro sum_list_mono two)
  also have "\<dots> = 2 * graph_size g"
    by (simp add: sum_list_triv graph_size_def)
  finally show ?thesis .
qed

lemma entry_offset_mono: "i \<le> k \<Longrightarrow> entry_offset g i \<le> entry_offset g k"
proof (induction k)
  case 0
  then show ?case by simp
next
  case (Suc k)
  then show ?case
    by (cases "i = Suc k") (auto simp: entry_offset_def)
qed

lemma entries_zip:
  assumes "hi \<le> length (neighborhood s)" "hi \<le> length (weights s)"
  shows "entries s lo hi
         = zip (take (hi - lo) (drop lo (neighborhood s))) (take (hi - lo) (drop lo (weights s)))"
proof (rule nth_equalityI)
  have l1: "length (take (hi - lo) (drop lo (neighborhood s))) = hi - lo"
    using assms(1) by simp
  have l2: "length (take (hi - lo) (drop lo (weights s))) = hi - lo"
    using assms(2) by simp
  show "length (entries s lo hi)
        = length (zip (take (hi - lo) (drop lo (neighborhood s)))
                      (take (hi - lo) (drop lo (weights s))))"
    unfolding length_zip l1 l2 by (simp add: entries_def)
  fix k
  assume "k < length (entries s lo hi)"
  then have k: "k < hi - lo"
    by (simp add: entries_def)
  then have "zip (take (hi - lo) (drop lo (neighborhood s)))
                 (take (hi - lo) (drop lo (weights s))) ! k
             = (take (hi - lo) (drop lo (neighborhood s)) ! k,
                take (hi - lo) (drop lo (weights s)) ! k)"
    by (intro nth_zip) (simp_all only: l1 l2)
  also have "\<dots> = (neighborhood s ! (lo + k), weights s ! (lo + k))"
    using k assms by simp
  finally show "entries s lo hi ! k
                = zip (take (hi - lo) (drop lo (neighborhood s)))
                      (take (hi - lo) (drop lo (weights s))) ! k"
    using k by (simp add: entries_def)
qed

text \<open>What the constructor leaves in the block of node \<open>i\<close>.\<close>

lemma ctor_block:
  assumes "wf_graph g" "i < length (gnodes g)"
  shows "entries (UndirectedLouvainIndex ptr g opts)
           (entry_offset g i) (entry_offset g i + length (graph_edges g (gnodes g ! i)))
         = map (\<lambda>e. (lookup_id (make_ids (gnodes g)) (graph_opposite (gnodes g ! i) e),
                      getWeight (opt_weighted opts) e))
             (graph_edges g (gnodes g ! i))"
proof -
  let ?s = "UndirectedLouvainIndex ptr g opts"
  let ?x = "gnodes g ! i"
  let ?ns = "concat (map (neighbor_ids g (make_ids (gnodes g))) (gnodes g))"
  let ?ws = "concat (map (\<lambda>x. map (getWeight (opt_weighted opts)) (graph_edges g x)) (gnodes g))"
  have total: "entry_offset g (length (gnodes g)) = sum_list (map (\<lambda>x. length (graph_edges g x)) (gnodes g))"
    unfolding entry_offset_def
    by (rule arg_cong [where f = sum_list]) (rule map_nth_upt)
  have lens: "length ?ns = entry_offset g (length (gnodes g))"
             "length ?ws = entry_offset g (length (gnodes g))"
    by (simp_all add: total length_concat comp_def neighbor_ids_def)
  have fit: "entry_offset g (length (gnodes g)) \<le> graph_size g * 2"
    using entry_offset_le [OF assms(1)] by simp
  have nb: "neighborhood ?s = ?ns @ drop (length ?ns) (replicate (graph_size g * 2) 0)"
    unfolding ctor_neighborhood using fit lens
    by (subst write_seq_closed) simp_all
  have ws: "weights ?s = ?ws @ drop (length ?ws) (replicate (graph_size g * 2) 0)"
    unfolding ctor_weights using fit lens
    by (subst write_seq_closed) simp_all
  have n1: "take (length (graph_edges g ?x)) (drop (entry_offset g i) (neighborhood ?s))
            = neighbor_ids g (make_ids (gnodes g)) ?x"
    unfolding nb
    by (rule concat_slice [OF assms(2)]) (simp_all add: entry_offset_def neighbor_ids_def)
  have w1: "take (length (graph_edges g ?x)) (drop (entry_offset g i) (weights ?s))
            = map (getWeight (opt_weighted opts)) (graph_edges g ?x)"
    unfolding ws
    by (rule concat_slice [OF assms(2)]) (simp_all add: entry_offset_def)
  have "entry_offset g i + length (graph_edges g ?x) = entry_offset g (Suc i)"
    by (simp add: entry_offset_def)
  also have "\<dots> \<le> entry_offset g (length (gnodes g))"
    using assms(2) by (intro entry_offset_mono) simp
  finally have inside: "entry_offset g i + length (graph_edges g ?x) \<le> graph_size g * 2"
    using fit by simp
  have lenN: "length (neighborhood ?s) = graph_size g * 2" "length (weights ?s) = graph_size g * 2"
    by (simp_all add: ctor_neighborhood ctor_weights)
  have "entries ?s (entry_offset g i) (entry_offset g i + length (graph_edges g ?x))
        = zip (take (length (graph_edges g ?x)) (drop (entry_offset g i) (neighborhood ?s)))
              (take (length (graph_edges g ?x)) (drop (entry_offset g i) (weights ?s)))"
    using entries_zip [of "entry_offset g i + length (graph_edges g ?x)" ?s "entry_offset g i"]
      inside lenN
    by simp
  then show ?thesis
    unfolding n1 w1 by (simp add: neighbor_ids_def zip_map_map zip_same_conv_map)
qed

lemma ctor_starts_nth:
  assumes "i < length (gnodes g)"
  shows "starts (UndirectedLouvainIndex ptr g opts) ! i = entry_offset g i"
  using assms by (simp add: ctor_starts nth_append)

lemma ctor_starts_last:
  "starts (UndirectedLouvainIndex ptr g opts) ! length (gnodes g) = graph_size g * 2"
  by (simp add: ctor_starts nth_append)

text \<open>When \<open>starts_fit\<close> holds, every value that the constructor stores into \<open>starts\<close> is a
  value of its element type.\<close>

lemma ctor_starts_values:
  assumes "wf_graph g" "starts_fit g"
  shows "list_all (\<lambda>v. v < pointer_values (graph_size g * 2))
           (starts (UndirectedLouvainIndex ptr g opts))"
proof -
  have "entry_offset g i < pointer_values (graph_size g * 2)" if "i < length (gnodes g)" for i
  proof -
    from that have "entry_offset g i \<le> entry_offset g (length (gnodes g))"
      by (intro entry_offset_mono) simp
    also have "\<dots> \<le> 2 * graph_size g"
      by (rule entry_offset_le [OF assms(1)])
    finally show ?thesis
      using assms(2) by (simp add: starts_fit_def mult.commute)
  qed
  then show ?thesis
    using assms(2) by (simp add: ctor_starts list_all_iff starts_fit_def)
qed

lemma ctor_block_keys:
  assumes "wf_graph g" "i < length (gnodes g)"
  shows "map (\<lambda>(n, wt). (gnodes g ! n, wt))
           (entries (UndirectedLouvainIndex ptr g opts)
              (entry_offset g i) (entry_offset g i + length (graph_edges g (gnodes g ! i))))
         = map (\<lambda>e. (graph_opposite (gnodes g ! i) e, getWeight (opt_weighted opts) e))
             (graph_edges g (gnodes g ! i))"
proof -
  have "gnodes g ! lookup_id (make_ids (gnodes g)) (graph_opposite (gnodes g ! i) e)
        = graph_opposite (gnodes g ! i) e" if "e \<in> set (graph_edges g (gnodes g ! i))" for e
  proof -
    from that have "e \<in> set (gedges g)"
      by (simp add: graph_edges_def)
    with assms(1) have "graph_opposite (gnodes g ! i) e \<in> set (gnodes g)"
      by (simp add: wf_graph_def graph_opposite_def)
    with assms(1) show ?thesis
      using lookup_make_ids [of "gnodes g"] by (simp add: wf_graph_def)
  qed
  then show ?thesis
    unfolding ctor_block [OF assms] by simp
qed


lemma fold_add_edge_M:
  "M (snd (fold (add_edge ids w node i) es (n, s)))
   = M s + sum_list (map (getWeight w) (filter (\<lambda>e. node < graph_opposite node e) es))"
  by (induction es arbitrary: n s) (simp_all add: Let_def)

lemma add_node_M:
  "M (snd (add_node g ids w i (n, s)))
   = M s + sum_list (map (getWeight w)
             (filter (\<lambda>e. nodes s ! i < graph_opposite (nodes s ! i) e)
                (graph_edges g (nodes s ! i))))"
  by (simp add: Let_def fold_add_edge_M)

lemma sum_list_one_endpoint:
  fixes h :: "'a \<Rightarrow> 'c::comm_monoid_add"
  assumes "distinct ns" "a \<in> set ns"
  shows "sum_list (map h (filter (\<lambda>x. a = x) ns)) = h a"
proof -
  have "distinct (filter (\<lambda>x. a = x) ns)"
    using assms(1) by simp
  then have "sum_list (map h (filter (\<lambda>x. a = x) ns)) = sum h (set (filter (\<lambda>x. a = x) ns))"
    by (rule sum_list_distinct_conv_sum_set)
  also have "set (filter (\<lambda>x. a = x) ns) = {a}"
    using assms(2) by auto
  finally show ?thesis by simp
qed

lemma incident_sum_loops:
  fixes f :: "string \<Rightarrow> edge \<Rightarrow> 'c::comm_monoid_add"
  assumes "wf_graph g"
  shows "sum_list (map (\<lambda>x. sum_list (map (f x) (graph_edges g x))) (gnodes g))
       = sum_list (map (\<lambda>e. if source e = target e then f (source e) e
                              else f (source e) e + f (target e) e) (gedges g))"
proof -
  have ends: "sum_list (map (\<lambda>x. f x e) (filter (\<lambda>x. source e = x \<or> target e = x) (gnodes g)))
        = (if source e = target e then f (source e) e else f (source e) e + f (target e) e)"
    if "e \<in> set (gedges g)" for e
  proof (cases "source e = target e")
    case True
    then have "filter (\<lambda>x. source e = x \<or> target e = x) (gnodes g)
               = filter (\<lambda>x. source e = x) (gnodes g)"
      by simp
    with True show ?thesis
      using assms that by (simp add: sum_list_one_endpoint wf_graph_def)
  next
    case False
    then show ?thesis
      using assms that by (simp add: sum_list_two_endpoints wf_graph_def)
  qed
  have "sum_list (map (\<lambda>x. sum_list (map (f x) (graph_edges g x))) (gnodes g))
        = sum_list (map (\<lambda>x. sum_list (map (f x)
            (filter (\<lambda>e. source e = x \<or> target e = x) (gedges g)))) (gnodes g))"
    by (simp add: graph_edges_def)
  also have "\<dots> = sum_list (map (\<lambda>e. sum_list (map (\<lambda>x. f x e)
            (filter (\<lambda>x. source e = x \<or> target e = x) (gnodes g)))) (gedges g))"
    by (rule sum_list_swap)
  also have "\<dots> = sum_list (map (\<lambda>e. if source e = target e then f (source e) e
                              else f (source e) e + f (target e) e) (gedges g))"
    by (intro arg_cong [where f = sum_list] map_cong refl ends)
  finally show ?thesis .
qed

lemma counted_proper:
  assumes "wf_graph g"
  shows "sum_list (map (counted_here w g) (gnodes g))
       = sum_list (map (getWeight w) (filter (\<lambda>e. source e \<noteq> target e) (gedges g)))"
proof -
  have one: "(if source e = target e
              then (if source e < graph_opposite (source e) e then getWeight w e else 0)
              else (if source e < graph_opposite (source e) e then getWeight w e else 0)
                 + (if target e < graph_opposite (target e) e then getWeight w e else 0))
        = (if source e \<noteq> target e then getWeight w e else 0)" for e
    by (auto simp: graph_opposite_def)
  have "sum_list (map (counted_here w g) (gnodes g))
        = sum_list (map (\<lambda>e. if source e = target e
              then (if source e < graph_opposite (source e) e then getWeight w e else 0)
              else (if source e < graph_opposite (source e) e then getWeight w e else 0)
                 + (if target e < graph_opposite (target e) e then getWeight w e else 0)) (gedges g))"
    unfolding counted_here_def by (rule incident_sum_loops [OF assms])
  also have "\<dots> = sum_list (map (\<lambda>e. if source e \<noteq> target e then getWeight w e else 0) (gedges g))"
    by (simp only: one)
  also have "\<dots> = sum_list (map (getWeight w) (filter (\<lambda>e. source e \<noteq> target e) (gedges g)))"
    by (rule sum_list_map_filter' [symmetric])
  finally show ?thesis .
qed


lemma fold_num_add:
  assumes "\<And>i. i \<in> set xs \<Longrightarrow> f i = Some (h i)"
  shows "fold (\<lambda>i Q. num_add Q (f i)) xs (Some a) = Some (a + sum_list (map h xs))"
  using assms
  by (induction xs arbitrary: a) (simp_all add: num_add_def add.assoc)

lemma fold_num_add_None:
  "fold (\<lambda>i Q. num_add Q (f i)) xs None = None"
  by (induction xs) (simp_all add: num_add_def)

lemma modularity_finite:
  assumes "M s \<noteq> 0" "C s \<le> length (internalWeights s)" "C s \<le> length (totalWeights s)"
  shows "modularity s
         = Some (sum_list (map (\<lambda>k. internalWeights s ! k / (M s * 2)
                                      - (totalWeights s ! k / (M s * 2)) ^ 2) [0..<C s]))"
proof -
  have "fold (\<lambda>i Q. num_add Q
                 (num_sub (num_div (cell (internalWeights s) i) (M s * 2))
                    (num_pow2 (num_div (cell (totalWeights s) i) (M s * 2)))))
          [0..<C s] (Some 0)
        = Some (0 + sum_list (map (\<lambda>k. internalWeights s ! k / (M s * 2)
                                      - (totalWeights s ! k / (M s * 2)) ^ 2) [0..<C s]))"
    using assms
    by (intro fold_num_add) (simp add: cell_def num_div_def num_sub_def num_pow2_def)
  then show ?thesis
    by (simp add: modularity_def Let_def)
qed

lemma modularity_not_finite:
  assumes "M s = 0" "0 < C s"
  shows "modularity s = None"
proof -
  let ?f = "\<lambda>i. num_sub (num_div (cell (internalWeights s) i) (M s * 2))
                    (num_pow2 (num_div (cell (totalWeights s) i) (M s * 2)))"
  have none: "?f i = None" for i
    using assms(1) by (simp add: num_div_def num_sub_def split: option.split)
  from assms(2) have upt: "[0..<C s] = 0 # [1..<C s]"
    by (simp add: upt_conv_Cons)
  have "modularity s = fold (\<lambda>i Q. num_add Q (?f i)) [0..<C s] (Some 0)"
    by (simp add: modularity_def Let_def)
  also have "\<dots> = fold (\<lambda>i Q. num_add Q None) [0..<C s] (Some 0)"
    by (simp only: none)
  also have "\<dots> = fold (\<lambda>i Q. num_add Q None) [1..<C s] None"
    unfolding upt by (simp add: num_add_def)
  also have "\<dots> = None"
    by (rule fold_num_add_None)
  finally show ?thesis .
qed


section \<open>The state after construction\<close>

text \<open>
  C10. For every undirected input graph, self-loops included, right after construction
  \<open>loops[i]\<close> and \<open>internalWeights[i]\<close> are 0 for every node \<open>i\<close>, while \<open>totalWeights[i]\<close> is
  the sum of the weights of all edges incident to node \<open>i\<close> and the block of node \<open>i\<close> lists
  the other endpoint and the weight of each of them: a self-loop of node \<open>i\<close> is one of
  these edges, so it is stored in the block and added to \<open>totalWeights\<close>, and recorded
  nowhere else.
\<close>

theorem ctor_self_loops_not_recorded:
  assumes "wf_graph g"
  shows "loops (UndirectedLouvainIndex ptr g opts) = replicate (length (gnodes g)) 0
       \<and> internalWeights (UndirectedLouvainIndex ptr g opts) = replicate (length (gnodes g)) 0
       \<and> (\<forall>i < length (gnodes g).
            totalWeights (UndirectedLouvainIndex ptr g opts) ! i
              = weighted_degree (opt_weighted opts) g (gnodes g ! i)
          \<and> map (\<lambda>(n, wt). (gnodes g ! n, wt))
               (entries (UndirectedLouvainIndex ptr g opts)
                  (starts (UndirectedLouvainIndex ptr g opts) ! i)
                  (starts (UndirectedLouvainIndex ptr g opts) ! i
                     + length (graph_edges g (gnodes g ! i))))
              = map (\<lambda>e. (graph_opposite (gnodes g ! i) e, getWeight (opt_weighted opts) e))
                  (graph_edges g (gnodes g ! i)))"
  using assms
  by (simp add: ctor_scalars ctor_totalWeights ctor_starts_nth ctor_block_keys)

theorem ctor_self_loops_not_recorded_witness:
  "wf_graph loop_graph
   \<and> loops (UndirectedLouvainIndex 256 loop_graph defaults) = [0]
   \<and> internalWeights (UndirectedLouvainIndex 256 loop_graph defaults) = [0]
   \<and> totalWeights (UndirectedLouvainIndex 256 loop_graph defaults) ! 0 = 1
   \<and> map (\<lambda>(n, wt). (gnodes loop_graph ! n, wt))
        (entries (UndirectedLouvainIndex 256 loop_graph defaults)
           (starts (UndirectedLouvainIndex 256 loop_graph defaults) ! 0)
           (starts (UndirectedLouvainIndex 256 loop_graph defaults) ! 0
              + length (graph_edges loop_graph (gnodes loop_graph ! 0))))
       = [(''a'', 1)]"
proof -
  have wf: "wf_graph loop_graph"
    by (simp add: wf_graph_def loop_graph_def)
  have i: "(0::nat) < length (gnodes loop_graph)"
    by (simp add: loop_graph_def)
  have r0: "replicate (length (gnodes loop_graph)) (0::real) = [0]"
    by (simp add: loop_graph_def)
  have r1: "weighted_degree (opt_weighted defaults) loop_graph (gnodes loop_graph ! 0) = 1"
    by code_simp
  have r2: "map (\<lambda>e. (graph_opposite (gnodes loop_graph ! 0) e,
                       getWeight (opt_weighted defaults) e))
              (graph_edges loop_graph (gnodes loop_graph ! 0)) = [(''a'', 1)]"
    by code_simp
  note inst = ctor_self_loops_not_recorded [OF wf, of 256 defaults]
  have a: "loops (UndirectedLouvainIndex 256 loop_graph defaults) = [0]"
    using inst unfolding r0 by (rule conjunct1)
  have b: "internalWeights (UndirectedLouvainIndex 256 loop_graph defaults) = [0]"
    using inst unfolding r0 by (rule conjunct1 [OF conjunct2])
  note c = conjunct2 [OF conjunct2 [OF inst], rule_format, OF i, unfolded r1 r2]
  show ?thesis
    by (intro conjI wf a b conjunct1 [OF c] conjunct2 [OF c])
qed

text \<open>
  C5, as stated, at the graph of one node with a self-loop: the graph's total edge weight
  is 1, and \<open>M\<close> is 0 after construction (the test \<open>node < neighbor\<close> fails at both ends of
  a self-loop).
\<close>

theorem ctor_M_self_loop_counterexample:
  "total_edge_weight (opt_weighted defaults) loop_graph = 1
   \<and> M (UndirectedLouvainIndex 256 loop_graph defaults) = 0"
  by code_simp

text \<open>
  C5, amended. For every undirected input graph, the visit of a node adds to \<open>M\<close> the
  weights of the incident edges whose other endpoint has a larger key, so that construction
  counts the weight of an edge that is not a self-loop exactly once, at the endpoint with the
  smaller key, and never counts the weight of a self-loop: \<open>M\<close> is the total weight of the
  edges that are not self-loops, the graph's total edge weight when it has none, and \<open>E\<close> is
  \<open>2 * size\<close>. When the graph has no self-loop and the stores into \<open>starts\<close> fit, the block
  \<open>bounds(i)\<close> of every node \<open>i\<close> lists the other endpoint and the weight of each edge incident
  to node \<open>i\<close>: every edge is stored in the blocks of both endpoints.
\<close>

theorem ctor_counts_each_edge_once:
  assumes "wf_graph g"
  shows "M (UndirectedLouvainIndex ptr g opts)
           = sum_list (map (getWeight (opt_weighted opts))
               (filter (\<lambda>e. source e \<noteq> target e) (gedges g)))
       \<and> (\<forall>i n s. M (snd (add_node g ids (opt_weighted opts) i (n, s)))
            = M s + sum_list (map (getWeight (opt_weighted opts))
                      (filter (\<lambda>e. nodes s ! i < graph_opposite (nodes s ! i) e)
                         (graph_edges g (nodes s ! i)))))
       \<and> (\<forall>e \<in> set (gedges g).
            (source e < target e \<longrightarrow>
               source e < graph_opposite (source e) e \<and> \<not> target e < graph_opposite (target e) e)
          \<and> (target e < source e \<longrightarrow>
               target e < graph_opposite (target e) e \<and> \<not> source e < graph_opposite (source e) e)
          \<and> (source e = target e \<longrightarrow> \<not> source e < graph_opposite (source e) e))
       \<and> E (UndirectedLouvainIndex ptr g opts) = 2 * graph_size g
       \<and> (no_self_loops g \<longrightarrow>
            M (UndirectedLouvainIndex ptr g opts) = total_edge_weight (opt_weighted opts) g)
       \<and> (no_self_loops g \<and> starts_fit g \<longrightarrow>
            (\<forall>i < length (gnodes g).
               map (\<lambda>(n, wt). (gnodes g ! n, wt))
                 (entries (UndirectedLouvainIndex ptr g opts)
                    (fst (bounds (UndirectedLouvainIndex ptr g opts) i))
                    (snd (bounds (UndirectedLouvainIndex ptr g opts) i)))
               = map (\<lambda>e. (graph_opposite (gnodes g ! i) e, getWeight (opt_weighted opts) e))
                   (graph_edges g (gnodes g ! i))))"
proof -
  let ?s = "UndirectedLouvainIndex ptr g opts"
  let ?w = "opt_weighted opts"
  have m: "M ?s = sum_list (map (getWeight ?w) (filter (\<lambda>e. source e \<noteq> target e) (gedges g)))"
    by (simp add: ctor_M counted_proper [OF assms])
  have visit: "\<forall>i n s. M (snd (add_node g ids ?w i (n, s)))
            = M s + sum_list (map (getWeight ?w)
                      (filter (\<lambda>e. nodes s ! i < graph_opposite (nodes s ! i) e)
                         (graph_edges g (nodes s ! i))))"
    by (intro allI) (rule add_node_M)
  have keys: "\<forall>e \<in> set (gedges g).
            (source e < target e \<longrightarrow>
               source e < graph_opposite (source e) e \<and> \<not> target e < graph_opposite (target e) e)
          \<and> (target e < source e \<longrightarrow>
               target e < graph_opposite (target e) e \<and> \<not> source e < graph_opposite (source e) e)
          \<and> (source e = target e \<longrightarrow> \<not> source e < graph_opposite (source e) e)"
    by (auto simp: graph_opposite_def)
  have e: "E ?s = 2 * graph_size g"
    by (simp add: ctor_scalars)
  have total: "M ?s = total_edge_weight ?w g" if "no_self_loops g"
  proof -
    from that have "filter (\<lambda>e. source e \<noteq> target e) (gedges g) = gedges g"
      by (simp add: no_self_loops_def)
    with m show ?thesis
      by (simp add: total_edge_weight_def)
  qed
  have blocks: "\<forall>i < length (gnodes g).
            map (\<lambda>(n, wt). (gnodes g ! n, wt)) (entries ?s (fst (bounds ?s i)) (snd (bounds ?s i)))
            = map (\<lambda>e. (graph_opposite (gnodes g ! i) e, getWeight ?w e))
                (graph_edges g (gnodes g ! i))" if nl: "no_self_loops g"
  proof (intro allI impI)
    fix i
    assume i: "i < length (gnodes g)"
    have hi: "starts ?s ! Suc i = entry_offset g i + length (graph_edges g (gnodes g ! i))"
    proof (cases "i + 1 < length (gnodes g)")
      case True
      then show ?thesis
        by (simp add: ctor_starts_nth entry_offset_def)
    next
      case False
      with i have "i + 1 = length (gnodes g)" by simp
      then have "starts ?s ! Suc i = entry_offset g (Suc i)"
        using ctor_starts_last [of ptr g opts] entry_offset_total [OF assms nl] by simp
      then show ?thesis
        by (simp add: entry_offset_def)
    qed
    show "map (\<lambda>(n, wt). (gnodes g ! n, wt)) (entries ?s (fst (bounds ?s i)) (snd (bounds ?s i)))
            = map (\<lambda>e. (graph_opposite (gnodes g ! i) e, getWeight ?w e))
                (graph_edges g (gnodes g ! i))"
      using i ctor_block_keys [OF assms i, of ptr opts]
      by (simp add: bounds_def hi ctor_starts_nth)
  qed
  from m visit keys e total blocks show ?thesis
    by blast
qed

theorem ctor_counts_each_edge_once_witness:
  "wf_graph chain_graph \<and> no_self_loops chain_graph \<and> starts_fit chain_graph
   \<and> M (UndirectedLouvainIndex 256 chain_graph weighted_options) = 6
   \<and> total_edge_weight (opt_weighted weighted_options) chain_graph = 6
   \<and> M (snd (add_node chain_graph (make_ids (gnodes chain_graph)) (opt_weighted weighted_options)
              1 (0, UndirectedLouvainIndex 256 chain_graph weighted_options))) = 6 + 1
   \<and> E (UndirectedLouvainIndex 256 chain_graph weighted_options) = 4
   \<and> map (\<lambda>(n, wt). (gnodes chain_graph ! n, wt))
        (entries (UndirectedLouvainIndex 256 chain_graph weighted_options)
           (fst (bounds (UndirectedLouvainIndex 256 chain_graph weighted_options) 1))
           (snd (bounds (UndirectedLouvainIndex 256 chain_graph weighted_options) 1)))
       = [(''a'', 5), (''c'', 1)]"
proof -
  let ?init = "UndirectedLouvainIndex 256 chain_graph weighted_options"
  have wf: "wf_graph chain_graph"
    by (simp add: wf_graph_def chain_graph_def)
  have nl: "no_self_loops chain_graph"
    by (simp add: no_self_loops_def chain_graph_def)
  have fit: "starts_fit chain_graph"
    by code_simp
  have i: "(1::nat) < length (gnodes chain_graph)"
    by (simp add: chain_graph_def)
  have r1: "total_edge_weight (opt_weighted weighted_options) chain_graph = 6"
    by code_simp
  have r2: "2 * graph_size chain_graph = 4"
    by code_simp
  have r3: "map (\<lambda>e. (graph_opposite (gnodes chain_graph ! 1) e,
                       getWeight (opt_weighted weighted_options) e))
              (graph_edges chain_graph (gnodes chain_graph ! 1)) = [(''a'', 5), (''c'', 1)]"
    by code_simp
  have r4: "sum_list (map (getWeight (opt_weighted weighted_options))
              (filter (\<lambda>e. source e \<noteq> target e) (gedges chain_graph))) = 6"
    by code_simp
  have r5: "sum_list (map (getWeight (opt_weighted weighted_options))
              (filter (\<lambda>e. nodes ?init ! 1 < graph_opposite (nodes ?init ! 1) e)
                 (graph_edges chain_graph (nodes ?init ! 1)))) = 1"
    by code_simp
  note inst = ctor_counts_each_edge_once [OF wf, of 256 weighted_options
      "make_ids (gnodes chain_graph)"]
  have a: "M ?init = 6"
    using conjunct1 [OF inst] unfolding r4 .
  note visit = conjunct1 [OF conjunct2 [OF inst], rule_format, of 1 0 ?init]
  have b: "M (snd (add_node chain_graph (make_ids (gnodes chain_graph))
              (opt_weighted weighted_options) 1 (0, ?init))) = 6 + 1"
    using visit unfolding r5 a .
  note rest = conjunct2 [OF conjunct2 [OF conjunct2 [OF inst]]]
  have c: "E ?init = 4"
    using conjunct1 [OF rest] unfolding r2 .
  have d: "map (\<lambda>(n, wt). (gnodes chain_graph ! n, wt))
        (entries ?init (fst (bounds ?init 1)) (snd (bounds ?init 1))) = [(''a'', 5), (''c'', 1)]"
    using conjunct2 [OF conjunct2 [OF rest], rule_format, OF conjI [OF nl fit] i]
    unfolding r3 .
  show ?thesis
    by (intro conjI wf nl fit a r1 b c d)
qed

text \<open>
  C8. For every undirected graph with no self-loops whose total edge weight \<open>M\<close> is not 0,
  \<open>modularity()\<close> evaluated right after construction is minus the sum over all nodes of
  \<open>(deg_i / (2M))^2\<close>, where \<open>deg_i\<close> is the weighted degree of node \<open>i\<close>. (When \<open>M\<close> is 0 the
  formula divides by zero, and so does the code: lemma \<open>modularity_not_finite\<close>.)
\<close>

theorem modularity_singletons:
  assumes "wf_graph g" "no_self_loops g" "total_edge_weight (opt_weighted opts) g \<noteq> 0"
  shows "modularity (UndirectedLouvainIndex ptr g opts)
         = Some (- (\<Sum>x\<leftarrow>gnodes g. (weighted_degree (opt_weighted opts) g x
                                       / (2 * total_edge_weight (opt_weighted opts) g)) ^ 2))"
proof -
  let ?s = "UndirectedLouvainIndex ptr g opts"
  let ?w = "opt_weighted opts"
  have m: "M ?s = total_edge_weight ?w g"
    by (simp add: ctor_M counted_total [OF assms(1,2)])
  have "modularity ?s
        = Some (\<Sum>i\<leftarrow>[0..<C ?s].
             internalWeights ?s ! i / (M ?s * 2) - (totalWeights ?s ! i / (M ?s * 2)) ^ 2)"
    using assms(3) by (intro modularity_finite) (simp_all add: m ctor_scalars ctor_totalWeights)
  also have "(\<Sum>i\<leftarrow>[0..<C ?s].
             internalWeights ?s ! i / (M ?s * 2) - (totalWeights ?s ! i / (M ?s * 2)) ^ 2)
        = (\<Sum>i\<leftarrow>[0..<length (gnodes g)].
             - ((weighted_degree ?w g (gnodes g ! i) / (2 * total_edge_weight ?w g)) ^ 2))"
    unfolding ctor_scalars m
    by (intro arg_cong [where f = sum_list] map_cong refl)
       (simp add: ctor_scalars ctor_totalWeights mult.commute)
  also have "\<dots> = (\<Sum>x\<leftarrow>gnodes g.
             - ((weighted_degree ?w g x / (2 * total_edge_weight ?w g)) ^ 2))"
    by (rule arg_cong [where f = sum_list]) (rule map_nth_upt)
  also have "\<dots> = - (\<Sum>x\<leftarrow>gnodes g.
             (weighted_degree ?w g x / (2 * total_edge_weight ?w g)) ^ 2)"
    by (rule uminus_sum_list_map [symmetric, unfolded comp_def])
  finally show ?thesis .
qed

theorem modularity_singletons_witness:
  "wf_graph chain_graph \<and> no_self_loops chain_graph
   \<and> total_edge_weight (opt_weighted weighted_options) chain_graph \<noteq> 0
   \<and> modularity (UndirectedLouvainIndex 256 chain_graph weighted_options) = Some (- (31 / 72))"
proof -
  have wf: "wf_graph chain_graph"
    by (simp add: wf_graph_def chain_graph_def)
  have nl: "no_self_loops chain_graph"
    by (simp add: no_self_loops_def chain_graph_def)
  have nz: "total_edge_weight (opt_weighted weighted_options) chain_graph \<noteq> 0"
    by code_simp
  have "(\<Sum>x\<leftarrow>gnodes chain_graph.
           (weighted_degree (opt_weighted weighted_options) chain_graph x
            / (2 * total_edge_weight (opt_weighted weighted_options) chain_graph)) ^ 2)
        = 31 / 72"
    by code_simp
  with modularity_singletons [OF wf nl nz, of 256] wf nl nz
  show ?thesis by simp
qed


section \<open>Moves\<close>

lemma move_frame:
  "C (move i d cd td t s) = C s"
  "M (move i d cd td t s) = M s"
  "E (move i d cd td t s) = E s"
  "level (move i d cd td t s) = level s"
  "nodes (move i d cd td t s) = nodes s"
  "keepDendrogram (move i d cd td t s) = keepDendrogram s"
  "dendrogram (move i d cd td t s) = dendrogram s"
  "mapping (move i d cd td t s) = mapping s"
  "loops (move i d cd td t s) = loops s"
  "starts (move i d cd td t s) = starts s"
  "weights (move i d cd td t s) = weights s"
  "neighborhood (move i d cd td t s) = neighborhood s"
  "belongings (move i d cd td t s) = (belongings s)[i := t]"
  by (simp_all add: move_def Let_def split: option.split)

lemma move_totalWeights:
  "totalWeights (move i d cd td t s)
   = ((totalWeights s)[belongings s ! i := totalWeights s ! (belongings s ! i) - (d + loops s ! i)])
       [t := ((totalWeights s)[belongings s ! i :=
                 totalWeights s ! (belongings s ! i) - (d + loops s ! i)]) ! t + (d + loops s ! i)]"
  by (simp add: move_def Let_def split: option.split)

lemma expensiveMove_is_move:
  "expensiveMove i ci s
   = move i (fst (scan s i ci)) (fst (snd (scan s i ci))) (snd (snd (scan s i ci))) ci s"
  by (simp add: expensiveMove_def scan_def Let_def case_prod_beta)

lemma sum_list_nth_update:
  fixes xs :: "real list"
  assumes "k < n" "n \<le> length xs"
  shows "sum_list (map (\<lambda>c. xs[k := v] ! c) [0..<n]) = sum_list (map (\<lambda>c. xs ! c) [0..<n]) - xs ! k + v"
proof -
  have "sum_list (map (\<lambda>c. xs[k := v] ! c) [0..<n]) = sum (\<lambda>c. xs[k := v] ! c) {0..<n}"
    by (simp add: interv_sum_list_conv_sum_set_nat)
  also have "\<dots> = xs[k := v] ! k + sum (\<lambda>c. xs[k := v] ! c) ({0..<n} - {k})"
    using assms by (intro sum.remove) simp_all
  also have "sum (\<lambda>c. xs[k := v] ! c) ({0..<n} - {k}) = sum (\<lambda>c. xs ! c) ({0..<n} - {k})"
    by (intro sum.cong refl) simp
  also have "xs[k := v] ! k = v"
    using assms by simp
  finally have a: "sum_list (map (\<lambda>c. xs[k := v] ! c) [0..<n]) = v + sum (\<lambda>c. xs ! c) ({0..<n} - {k})" .
  have "sum_list (map (\<lambda>c. xs ! c) [0..<n]) = sum (\<lambda>c. xs ! c) {0..<n}"
    by (simp add: interv_sum_list_conv_sum_set_nat)
  also have "\<dots> = xs ! k + sum (\<lambda>c. xs ! c) ({0..<n} - {k})"
    using assms by (intro sum.remove) simp_all
  finally show ?thesis
    using a by simp
qed

lemma move_sum:
  assumes "in_bounds s" "i < C s" "t < C s"
  shows "sum_totalWeights (move i d cd td t s) = sum_totalWeights s"
proof -
  let ?c = "belongings s ! i"
  let ?x = "d + loops s ! i"
  let ?tw1 = "(totalWeights s)[?c := totalWeights s ! ?c - ?x]"
  from assms have c: "?c < C s" and len: "C s \<le> length (totalWeights s)"
    by (simp_all add: in_bounds_def)
  have "sum_totalWeights (move i d cd td t s)
        = sum_list (map (\<lambda>c. ?tw1[t := ?tw1 ! t + ?x] ! c) [0..<C s])"
    by (simp add: sum_totalWeights_def move_frame move_totalWeights)
  also have "\<dots> = sum_list (map (\<lambda>c. ?tw1 ! c) [0..<C s]) - ?tw1 ! t + (?tw1 ! t + ?x)"
    using assms(3) len by (intro sum_list_nth_update) simp_all
  also have "sum_list (map (\<lambda>c. ?tw1 ! c) [0..<C s])
             = sum_list (map (\<lambda>c. totalWeights s ! c) [0..<C s]) - totalWeights s ! ?c
               + (totalWeights s ! ?c - ?x)"
    using c len by (intro sum_list_nth_update) simp_all
  finally show ?thesis
    by (simp add: sum_totalWeights_def)
qed

lemma move_in_bounds:
  assumes "in_bounds s" "i < C s" "t < C s"
  shows "in_bounds (move i d cd td t s)"
  using assms
  by (auto simp: in_bounds_def move_frame move_totalWeights nth_list_update)

lemma fold_scan_entry_degree:
  "fst (fold (scan_entry s c ci) os (d, cd, td)) = d + sum_list (map (\<lambda>ofs. weights s ! ofs) os)"
  by (induction os arbitrary: d cd td) (simp_all add: Let_def)

lemma scan_degree:
  "fst (scan s i ci) = sum_list (map snd (entries s (starts s ! i) (starts s ! (i + 1))))"
  by (simp add: scan_def fold_scan_entry_degree entries_def comp_def)


section \<open>Coarsening\<close>

lemma renumber_eq:
  "renumber i (nl, ig, s) =
     (if nl (belongings s ! i) = None
      then (nl(belongings s ! i \<mapsto> length ig), ig @ [fresh s (belongings s ! i)],
            s\<lparr>belongings := (belongings s)[i := length ig]\<rparr>)
      else (nl, ig, s\<lparr>belongings := (belongings s)[i := the (nl (belongings s ! i))]\<rparr>))"
  by (simp add: Let_def fresh_def)

lemma fresh_belongings: "fresh (s\<lparr>belongings := b\<rparr>) = fresh s"
  by (rule ext) (simp add: fresh_def)

lemma fold_renumber:
  assumes "k \<le> length (belongings s)"
  shows "\<exists>nl F b'.
           fold renumber [0..<k] (Map.empty, [], s) = (nl, map (fresh s) F, s\<lparr>belongings := b'\<rparr>)
         \<and> distinct F \<and> set F = set (take k (belongings s)) \<and> dom nl = set F
         \<and> length b' = length (belongings s) \<and> drop k b' = drop k (belongings s)"
  using assms
proof (induction k)
  case 0
  have "fold renumber [0..<0] (Map.empty, [], s) = (Map.empty, map (fresh s) [], s\<lparr>belongings := belongings s\<rparr>)"
    by simp
  then show ?case
    by (intro exI [of _ Map.empty] exI [of _ "[]"] exI [of _ "belongings s"]) simp
next
  case (Suc k)
  from Suc.prems have kle: "k \<le> length (belongings s)" by simp
  from Suc.IH [OF kle] obtain nl F b' where
    run: "fold renumber [0..<k] (Map.empty, [], s) = (nl, map (fresh s) F, s\<lparr>belongings := b'\<rparr>)"
    and F: "distinct F" "set F = set (take k (belongings s))" "dom nl = set F"
    and b: "length b' = length (belongings s)" "drop k b' = drop k (belongings s)"
    by blast
  from Suc.prems have k: "k < length (belongings s)" by simp
  have "b' ! k = hd (drop k b')"
    using k b(1) by (simp add: hd_drop_conv_nth)
  also have "\<dots> = belongings s ! k"
    using k b(2) by (simp add: hd_drop_conv_nth)
  finally have ci: "b' ! k = belongings s ! k" .
  have set': "set (take (Suc k) (belongings s)) = insert (belongings s ! k) (set F)"
    using k F(2) by (simp add: take_Suc_conv_app_nth)
  have "fold renumber [0..<Suc k] (Map.empty, [], s)
        = renumber k (fold renumber [0..<k] (Map.empty, [], s))"
    by simp
  then have step: "fold renumber [0..<Suc k] (Map.empty, [], s)
              = renumber k (nl, map (fresh s) F, s\<lparr>belongings := b'\<rparr>)"
    by (simp only: run)
  have tl: "drop (Suc k) xs = tl (drop k xs)" for xs :: "nat list"
    by (simp add: drop_Suc tl_drop)
  have dr: "drop (Suc k) (b'[k := v]) = drop (Suc k) (belongings s)" for v
  proof -
    have "drop (Suc k) (b'[k := v]) = drop (Suc k) b'"
      by (rule drop_update_cancel) simp
    also have "\<dots> = drop (Suc k) (belongings s)"
      unfolding tl b(2) ..
    finally show ?thesis .
  qed
  show ?case
  proof (cases "nl (belongings s ! k) = None")
    case True
    then have notin: "belongings s ! k \<notin> set F"
      unfolding F(3) [symmetric] by (simp add: domIff)
    let ?nl = "nl(belongings s ! k \<mapsto> length F)"
    let ?F = "F @ [belongings s ! k]"
    let ?b = "b'[k := length F]"
    have 1: "fold renumber [0..<Suc k] (Map.empty, [], s)
          = (?nl, map (fresh s) ?F, s\<lparr>belongings := ?b\<rparr>)"
      unfolding step renumber_eq using True by (simp add: ci fresh_belongings)
    have 2: "distinct ?F" using F(1) notin by simp
    have 3: "set ?F = set (take (Suc k) (belongings s))" using set' by simp
    have 4: "dom ?nl = set ?F" using F(3) by simp
    have 5: "length ?b = length (belongings s)" using b(1) by simp
    show ?thesis
      by (intro exI [of _ ?nl] exI [of _ ?F] exI [of _ ?b] conjI 1 2 3 4 5 dr)
  next
    case False
    then have isin: "belongings s ! k \<in> set F"
      unfolding F(3) [symmetric] by (simp add: domIff)
    let ?b = "b'[k := the (nl (belongings s ! k))]"
    have 1: "fold renumber [0..<Suc k] (Map.empty, [], s)
          = (nl, map (fresh s) F, s\<lparr>belongings := ?b\<rparr>)"
      unfolding step renumber_eq using False by (simp add: ci)
    have 3: "set F = set (take (Suc k) (belongings s))"
      using isin set' by auto
    have 5: "length ?b = length (belongings s)" using b(1) by simp
    show ?thesis
      by (intro exI [of _ nl] exI [of _ F] exI [of _ ?b] conjI 1 F(1) 3 F(3) 5 dr)
  qed
qed

lemma map_update_same: "(map f xs)[i := f (xs ! i)] = map f xs"
  by (metis list_update_id map_update)

lemma induce_entry_same: "same_totals (fst (induce_entry s ci j (ig, En))) ig"
  by (simp add: same_totals_def Let_def map_update map_update_same)

lemma fold_induce_entry: "same_totals (fst (fold (induce_entry s ci) js (ig, En))) ig"
proof (induction js arbitrary: ig En)
  case Nil
  then show ?case by (simp add: same_totals_def)
next
  case (Cons j js)
  obtain ig' En' where r: "induce_entry s ci j (ig, En) = (ig', En')"
    by (cases "induce_entry s ci j (ig, En)")
  from induce_entry_same [of s ci j ig En] have "same_totals ig' ig"
    by (simp only: r fst_conv)
  moreover have "same_totals (fst (fold (induce_entry s ci) js (ig', En'))) ig'"
    by (rule Cons.IH)
  ultimately have "same_totals (fst (fold (induce_entry s ci) js (ig', En'))) ig"
    by (simp add: same_totals_def)
  then show ?case
    by (simp only: fold_simps r)
qed

lemma fold_induce_node: "same_totals (fst (fold (induce_node s) is (ig, En))) ig"
proof (induction "is" arbitrary: ig En)
  case Nil
  then show ?case by (simp add: same_totals_def)
next
  case (Cons i "is")
  obtain ig' En' where r: "induce_node s i (ig, En) = (ig', En')"
    by (cases "induce_node s i (ig, En)")
  have "same_totals (fst (induce_node s i (ig, En))) ig"
    by (simp add: Let_def fold_induce_entry)
  then have "same_totals ig' ig"
    by (simp only: r fst_conv)
  moreover have "same_totals (fst (fold (induce_node s) is (ig', En'))) ig'"
    by (rule Cons.IH)
  ultimately have "same_totals (fst (fold (induce_node s) is (ig', En'))) ig"
    by (simp add: same_totals_def)
  then show ?case
    by (simp only: fold_simps r)
qed

lemma fold_write_entry:
  "fold write_entry a (n, s) =
     (n + length a,
      s\<lparr>neighborhood := write_seq n (map fst a) (neighborhood s),
        weights := write_seq n (map snd a) (weights s)\<rparr>)"
proof (induction a arbitrary: n s)
  case Nil
  then show ?case by simp
next
  case (Cons x a)
  obtain cj w where x: "x = (cj, w)" by (cases x)
  show ?case
    by (simp add: x Cons.IH)
qed

lemma rewrite_node_eq:
  "rewrite_node ig ci (n, s) =
     (n + length (adj (ig ! ci)),
      s\<lparr>totalWeights := (totalWeights s)[ci := ig_totalWeights (ig ! ci)],
        internalWeights := (internalWeights s)[ci := ig_internalWeights (ig ! ci)],
        loops := (loops s)[ci := ig_internalWeights (ig ! ci)],
        counts := rewrite_counts (keepCounts s) ig ci (counts s),
        starts := (starts s)[ci := n],
        belongings := (belongings s)[ci := ci],
        neighborhood := write_seq n (map fst (adj (ig ! ci))) (neighborhood s),
        weights := write_seq n (map snd (adj (ig ! ci))) (weights s)\<rparr>)"
  by (simp add: Let_def fold_write_entry rewrite_counts_def split: option.split)

lemma fold_rewrite_node:
  "fold (rewrite_node ig) [0..<k] (0, s) =
    (induced_offset ig k,
     s\<lparr>totalWeights := fold (\<lambda>ci tw. tw[ci := ig_totalWeights (ig ! ci)]) [0..<k] (totalWeights s),
       internalWeights :=
         fold (\<lambda>ci iw. iw[ci := ig_internalWeights (ig ! ci)]) [0..<k] (internalWeights s),
       loops := fold (\<lambda>ci l. l[ci := ig_internalWeights (ig ! ci)]) [0..<k] (loops s),
       counts := fold (rewrite_counts (keepCounts s) ig) [0..<k] (counts s),
       starts := fold (\<lambda>ci st. st[ci := induced_offset ig ci]) [0..<k] (starts s),
       belongings := fold (\<lambda>ci b. b[ci := ci]) [0..<k] (belongings s),
       neighborhood := write_seq 0 (concat (map (\<lambda>ci. map fst (adj (ig ! ci))) [0..<k]))
                         (neighborhood s),
       weights := write_seq 0 (concat (map (\<lambda>ci. map snd (adj (ig ! ci))) [0..<k]))
                    (weights s)\<rparr>)"
    (is "?L k = (_, ?S k)")
proof (induction k)
  case 0
  then show ?case by (simp add: induced_offset_def)
next
  case (Suc k)
  have len: "length (concat (map (\<lambda>ci. map fst (adj (ig ! ci))) [0..<k])) = induced_offset ig k"
            "length (concat (map (\<lambda>ci. map snd (adj (ig ! ci))) [0..<k])) = induced_offset ig k"
    by (simp_all add: induced_offset_def length_concat comp_def)
  have off: "induced_offset ig (Suc k) = induced_offset ig k + length (adj (ig ! k))"
    by (simp add: induced_offset_def)
  have "?L (Suc k) = rewrite_node ig k (?L k)"
    by simp
  also have "\<dots> = rewrite_node ig k (induced_offset ig k, ?S k)"
    by (simp only: Suc.IH)
  finally have step: "?L (Suc k) = rewrite_node ig k (induced_offset ig k, ?S k)" .
  show ?case
    unfolding step rewrite_node_eq
    by (simp add: write_seq_append len off)
qed

lemma fold_renumber_frame:
  "\<exists>nl' ig' b'. fold renumber is (nl, ig, s) = (nl', ig', s\<lparr>belongings := b'\<rparr>)"
proof (induction "is" arbitrary: nl ig s)
  case Nil
  have "fold renumber [] (nl, ig, s) = (nl, ig, s\<lparr>belongings := belongings s\<rparr>)"
    by simp
  then show ?case by blast
next
  case (Cons i "is")
  obtain nl1 ig1 b1 where 1: "renumber i (nl, ig, s) = (nl1, ig1, s\<lparr>belongings := b1\<rparr>)"
    unfolding renumber_eq by (cases "nl (belongings s ! i) = None") simp_all
  from Cons.IH [of nl1 ig1 "s\<lparr>belongings := b1\<rparr>"]
  obtain nl' ig' b' where
    "fold renumber is (nl1, ig1, s\<lparr>belongings := b1\<rparr>) = (nl', ig', s\<lparr>belongings := b1, belongings := b'\<rparr>)"
    by blast
  then have "fold renumber (i # is) (nl, ig, s) = (nl', ig', s\<lparr>belongings := b'\<rparr>)"
    by (simp add: 1 del: renumber.simps)
  then show ?case by blast
qed

lemma renumber_result:
  obtains nl ig0 where
    "fold renumber [0..<C s] (Map.empty, [], s) = (nl, ig0, s\<lparr>belongings := renumbered s\<rparr>)"
proof -
  from fold_renumber_frame [of "[0..<C s]" Map.empty "[]" s]
  obtain nl ig0 b' where
    r: "fold renumber [0..<C s] (Map.empty, [], s) = (nl, ig0, s\<lparr>belongings := b'\<rparr>)"
    by blast
  then have "renumbered s = b'"
    by (simp add: renumbered_def)
  with r that show ?thesis by simp
qed

lemma actualize_frame:
  "C (actualize s) = C s"
  "M (actualize s) = M s"
  "E (actualize s) = E s"
  "level (actualize s) = level s"
  "nodes (actualize s) = nodes s"
  "keepDendrogram (actualize s) = keepDendrogram s"
  "keepCounts (actualize s) = keepCounts s"
  "totalWeights (actualize s) = totalWeights s"
  "internalWeights (actualize s) = internalWeights s"
  "belongings (actualize s) = belongings s"
  "starts (actualize s) = starts s"
  "loops (actualize s) = loops s"
  "counts (actualize s) = counts s"
  by (simp_all add: actualize_def Let_def)

text \<open>The state after \<open>zoomOut\<close>, from the results of its first and third loop.\<close>

lemma zoomOut_unfold:
  assumes "fold renumber [0..<C s] (Map.empty, [], s) = (nl, ig0, s1)"
    and "fold (induce_node (actualize s1)) [0..<C (actualize s1)] (ig0, 0) = (ig, En)"
  shows "zoomOut s =
     (actualize s1)
       \<lparr>C := length ig0, E := En, level := level (actualize s1) + 1,
        totalWeights := fold (\<lambda>ci tw. tw[ci := ig_totalWeights (ig ! ci)]) [0..<length ig0]
                          (totalWeights (actualize s1)),
        internalWeights := fold (\<lambda>ci iw. iw[ci := ig_internalWeights (ig ! ci)]) [0..<length ig0]
                             (internalWeights (actualize s1)),
        loops := fold (\<lambda>ci l. l[ci := ig_internalWeights (ig ! ci)]) [0..<length ig0]
                   (loops (actualize s1)),
        counts := fold (rewrite_counts (keepCounts (actualize s1)) ig) [0..<length ig0]
                    (counts (actualize s1)),
        starts := (fold (\<lambda>ci st. st[ci := induced_offset ig ci]) [0..<length ig0]
                     (starts (actualize s1)))[length ig0 := En],
        belongings := fold (\<lambda>ci b. b[ci := ci]) [0..<length ig0] (belongings (actualize s1)),
        neighborhood := write_seq 0 (concat (map (\<lambda>ci. map fst (adj (ig ! ci))) [0..<length ig0]))
                          (neighborhood (actualize s1)),
        weights := write_seq 0 (concat (map (\<lambda>ci. map snd (adj (ig ! ci))) [0..<length ig0]))
                     (weights (actualize s1))\<rparr>"
proof -
  let ?a = "actualize s1"
  have "fold (rewrite_node ig) [0..<length ig0] (0, ?a\<lparr>C := length ig0, E := En\<rparr>)
        = (induced_offset ig (length ig0),
           ?a\<lparr>C := length ig0, E := En,
             totalWeights := fold (\<lambda>ci tw. tw[ci := ig_totalWeights (ig ! ci)]) [0..<length ig0]
                          (totalWeights ?a),
             internalWeights := fold (\<lambda>ci iw. iw[ci := ig_internalWeights (ig ! ci)]) [0..<length ig0]
                             (internalWeights ?a),
             loops := fold (\<lambda>ci l. l[ci := ig_internalWeights (ig ! ci)]) [0..<length ig0]
                   (loops ?a),
             counts := fold (rewrite_counts (keepCounts ?a) ig) [0..<length ig0] (counts ?a),
             starts := fold (\<lambda>ci st. st[ci := induced_offset ig ci]) [0..<length ig0] (starts ?a),
             belongings := fold (\<lambda>ci b. b[ci := ci]) [0..<length ig0] (belongings ?a),
             neighborhood := write_seq 0 (concat (map (\<lambda>ci. map fst (adj (ig ! ci))) [0..<length ig0]))
                          (neighborhood ?a),
             weights := write_seq 0 (concat (map (\<lambda>ci. map snd (adj (ig ! ci))) [0..<length ig0]))
                     (weights ?a)\<rparr>)"
    unfolding fold_rewrite_node by simp
  then show ?thesis
    unfolding zoomOut_def assms Let_def prod.case snd_conv
    by simp
qed

lemma zoomOut_frame:
  "M (zoomOut s) = M s"
  "nodes (zoomOut s) = nodes s"
  "keepDendrogram (zoomOut s) = keepDendrogram s"
  "level (zoomOut s) = level s + 1"
  "dendrogram (zoomOut s) = dendrogram (actualize (s\<lparr>belongings := renumbered s\<rparr>))"
  "mapping (zoomOut s) = mapping (actualize (s\<lparr>belongings := renumbered s\<rparr>))"
proof -
  obtain nl ig0 where
    r: "fold renumber [0..<C s] (Map.empty, [], s) = (nl, ig0, s\<lparr>belongings := renumbered s\<rparr>)"
    by (rule renumber_result)
  let ?a = "actualize (s\<lparr>belongings := renumbered s\<rparr>)"
  obtain ig En where i: "fold (induce_node ?a) [0..<C ?a] (ig0, 0) = (ig, En)"
    by (cases "fold (induce_node ?a) [0..<C ?a] (ig0, 0)")
  note z = zoomOut_unfold [OF r i]
  show "M (zoomOut s) = M s" "nodes (zoomOut s) = nodes s"
    "keepDendrogram (zoomOut s) = keepDendrogram s" "level (zoomOut s) = level s + 1"
    "dendrogram (zoomOut s) = dendrogram ?a" "mapping (zoomOut s) = mapping ?a"
    unfolding z by (simp_all add: actualize_frame)
qed

lemma zoomOut_totals:
  assumes "C s \<le> length (belongings s)"
  shows "\<exists>F. distinct F \<and> set F = set (take (C s) (belongings s))
           \<and> C (zoomOut s) = length F
           \<and> (length F \<le> length (totalWeights s) \<longrightarrow>
                take (length F) (totalWeights (zoomOut s)) = map (\<lambda>c. totalWeights s ! c) F)"
proof -
  from fold_renumber [OF assms] obtain nl F b' where
    r: "fold renumber [0..<C s] (Map.empty, [], s) = (nl, map (fresh s) F, s\<lparr>belongings := b'\<rparr>)"
    and F: "distinct F" "set F = set (take (C s) (belongings s))"
    by blast
  let ?a = "actualize (s\<lparr>belongings := b'\<rparr>)"
  obtain ig En where i: "fold (induce_node ?a) [0..<C ?a] (map (fresh s) F, 0) = (ig, En)"
    by (cases "fold (induce_node ?a) [0..<C ?a] (map (fresh s) F, 0)")
  from fold_induce_node [of ?a "[0..<C ?a]" "map (fresh s) F" 0]
  have same: "same_totals ig (map (fresh s) F)"
    by (simp only: i fst_conv)
  note z = zoomOut_unfold [OF r i]
  have c: "C (zoomOut s) = length F"
    unfolding z by simp
  have tw: "take (length F) (totalWeights (zoomOut s)) = map (\<lambda>c. totalWeights s ! c) F"
    if le: "length F \<le> length (totalWeights s)"
  proof -
    have "totalWeights (zoomOut s)
          = fold (\<lambda>ci tw. tw[ci := ig_totalWeights (ig ! ci)]) [0..<length F] (totalWeights s)"
      unfolding z by (simp add: actualize_frame)
    also have "\<dots> = map (\<lambda>ci. ig_totalWeights (ig ! ci)) [0..<length F] @ drop (length F) (totalWeights s)"
      using le by (rule fold_update_closed)
    also have "map (\<lambda>ci. ig_totalWeights (ig ! ci)) [0..<length F] = map ig_totalWeights ig"
      using same map_nth_upt [of ig_totalWeights ig] by (simp add: same_totals_def)
    also have "\<dots> = map (\<lambda>c. totalWeights s ! c) F"
      using same by (simp add: same_totals_def fresh_def comp_def)
    finally show ?thesis by simp
  qed
  show ?thesis
    using F c tw by (intro exI [of _ F] conjI impI)
qed

lemma sum_list_nth_take:
  fixes xs :: "real list"
  assumes "n \<le> length xs"
  shows "sum_list (map (\<lambda>c. xs ! c) [0..<n]) = sum_list (take n xs)"
proof -
  have "map (\<lambda>c. xs ! c) [0..<n] = take n xs"
    using assms by (intro nth_equalityI) simp_all
  then show ?thesis by simp
qed

lemma zoomOut_sum:
  assumes "in_bounds s"
    and "\<forall>c < C s. c \<notin> set (take (C s) (belongings s)) \<longrightarrow> totalWeights s ! c = 0"
  shows "sum_totalWeights (zoomOut s) = sum_totalWeights s"
proof -
  from assms(1) have le: "C s \<le> length (belongings s)" "C s \<le> length (totalWeights s)"
    and rng: "\<forall>i < C s. belongings s ! i < C s"
    by (simp_all add: in_bounds_def)
  from zoomOut_totals [OF le(1)] obtain F where
    F: "distinct F" "set F = set (take (C s) (belongings s))" "C (zoomOut s) = length F"
    and tw': "length F \<le> length (totalWeights s) \<longrightarrow>
       take (length F) (totalWeights (zoomOut s)) = map (\<lambda>c. totalWeights s ! c) F"
    by (elim exE conjE)
  note tw = tw' [rule_format]
  have sub: "set F \<subseteq> {0..<C s}"
    unfolding F(2) using rng le(1) by (auto simp: in_set_conv_nth)
  have "length F = card (set F)"
    using F(1) by (simp add: distinct_card)
  also have "\<dots> \<le> card {0..<C s}"
    using sub by (intro card_mono) simp_all
  finally have lenF: "length F \<le> C s" by simp
  with le(2) have lenF': "length F \<le> length (totalWeights s)" by simp
  have "length (take (length F) (totalWeights (zoomOut s))) = length F"
    unfolding tw [OF lenF'] by simp
  then have lenZ: "length F \<le> length (totalWeights (zoomOut s))"
    by simp
  have "sum_totalWeights (zoomOut s) = sum_list (take (length F) (totalWeights (zoomOut s)))"
    unfolding sum_totalWeights_def F(3) using lenZ by (rule sum_list_nth_take)
  also have "\<dots> = sum_list (map (\<lambda>c. totalWeights s ! c) F)"
    by (simp only: tw [OF lenF'])
  also have "\<dots> = sum (\<lambda>c. totalWeights s ! c) (set F)"
    using F(1) by (rule sum_list_distinct_conv_sum_set)
  also have "\<dots> = sum (\<lambda>c. totalWeights s ! c) {0..<C s}"
    using sub assms(2) F(2) by (intro sum.mono_neutral_left) auto
  also have "\<dots> = sum_totalWeights s"
    by (simp add: sum_totalWeights_def interv_sum_list_conv_sum_set_nat)
  finally show ?thesis .
qed

lemma length_renumbered:
  assumes "C s \<le> length (belongings s)"
  shows "length (renumbered s) = length (belongings s)"
proof -
  from fold_renumber [OF assms] obtain nl F b' where
    r: "fold renumber [0..<C s] (Map.empty, [], s) = (nl, map (fresh s) F, s\<lparr>belongings := b'\<rparr>)"
    and b: "length b' = length (belongings s)"
    by blast
  from r have "renumbered s = b'"
    by (simp add: renumbered_def)
  with b show ?thesis by simp
qed

lemma zoomOut_in_bounds:
  assumes "in_bounds s"
  shows "in_bounds (zoomOut s)"
proof -
  from assms have le: "C s \<le> length (belongings s)" "C s \<le> length (totalWeights s)"
    and rng: "\<forall>i < C s. belongings s ! i < C s"
    by (simp_all add: in_bounds_def)
  from fold_renumber [OF le(1)] obtain nl F b' where
    r: "fold renumber [0..<C s] (Map.empty, [], s) = (nl, map (fresh s) F, s\<lparr>belongings := b'\<rparr>)"
    and F: "distinct F" "set F = set (take (C s) (belongings s))"
    and b: "length b' = length (belongings s)"
    by blast
  let ?a = "actualize (s\<lparr>belongings := b'\<rparr>)"
  obtain ig En where i: "fold (induce_node ?a) [0..<C ?a] (map (fresh s) F, 0) = (ig, En)"
    by (cases "fold (induce_node ?a) [0..<C ?a] (map (fresh s) F, 0)")
  note z = zoomOut_unfold [OF r i]
  have sub: "set F \<subseteq> {0..<C s}"
    unfolding F(2) using rng le(1) by (auto simp: in_set_conv_nth)
  have "length F = card (set F)"
    using F(1) by (simp add: distinct_card)
  also have "\<dots> \<le> card {0..<C s}"
    using sub by (intro card_mono) simp_all
  finally have lenF: "length F \<le> C s" by simp
  have c: "C (zoomOut s) = length F"
    unfolding z by simp
  have tw: "length (totalWeights (zoomOut s)) = length (totalWeights s)"
    unfolding z by (simp add: actualize_frame)
  have "belongings (zoomOut s) = fold (\<lambda>ci b. b[ci := ci]) [0..<length F] b'"
    unfolding z by (simp add: actualize_frame)
  also have "\<dots> = map (\<lambda>ci. ci) [0..<length F] @ drop (length F) b'"
    using fold_update_closed [of "length F" b' "\<lambda>ci v. ci"] lenF le(1) b by simp
  finally have bel: "belongings (zoomOut s) = [0..<length F] @ drop (length F) b'"
    by simp
  have "length (belongings (zoomOut s)) = length (belongings s)"
    unfolding bel using lenF le(1) b by simp
  moreover have "belongings (zoomOut s) ! j < length F" if "j < length F" for j
    unfolding bel using that by (simp add: nth_append)
  ultimately show ?thesis
    unfolding in_bounds_def c tw using lenF le by simp
qed


section \<open>The sum of the total weights\<close>

lemma sum_list_upt_change:
  fixes f g :: "nat \<Rightarrow> real"
  assumes "i < n" "\<And>j. j \<noteq> i \<Longrightarrow> g j = f j"
  shows "sum_list (map g [0..<n]) = sum_list (map f [0..<n]) - f i + g i"
proof -
  have "sum_list (map g [0..<n]) = sum g {0..<n}"
    by (simp add: interv_sum_list_conv_sum_set_nat)
  also have "\<dots> = g i + sum g ({0..<n} - {i})"
    using assms(1) by (intro sum.remove) simp_all
  also have "sum g ({0..<n} - {i}) = sum f ({0..<n} - {i})"
    by (intro sum.cong refl) (simp add: assms(2))
  finally have a: "sum_list (map g [0..<n]) = g i + sum f ({0..<n} - {i})" .
  have "sum_list (map f [0..<n]) = sum f {0..<n}"
    by (simp add: interv_sum_list_conv_sum_set_nat)
  also have "\<dots> = f i + sum f ({0..<n} - {i})"
    using assms(1) by (intro sum.remove) simp_all
  finally show ?thesis
    using a by simp
qed

lemma sum_list_upt_single:
  fixes f :: "nat \<Rightarrow> real"
  assumes "c < n"
  shows "sum_list (map (\<lambda>i. if i = c then f i else 0) [0..<n]) = f c"
  using sum_list_upt_change [OF assms, of "\<lambda>i. if i = c then f i else 0" "\<lambda>i. 0"]
  by simp

lemma ctor_starts_Suc:
  assumes "wf_graph g" "no_self_loops g" "i < length (gnodes g)"
  shows "starts (UndirectedLouvainIndex ptr g opts) ! Suc i
         = entry_offset g i + length (graph_edges g (gnodes g ! i))"
proof (cases "Suc i < length (gnodes g)")
  case True
  then show ?thesis
    by (simp add: ctor_starts_nth entry_offset_def)
next
  case False
  with assms(3) have "Suc i = length (gnodes g)" by simp
  then have "starts (UndirectedLouvainIndex ptr g opts) ! Suc i = entry_offset g (Suc i)"
    using ctor_starts_last [of ptr g opts] entry_offset_total [OF assms(1,2)] by simp
  then show ?thesis
    by (simp add: entry_offset_def)
qed

lemma ctor_in_bounds: "in_bounds (UndirectedLouvainIndex ptr g opts)"
  by (simp add: in_bounds_def ctor_scalars ctor_totalWeights ctor_belongings)

lemma ctor_matched:
  assumes "wf_graph g" "no_self_loops g"
  shows "matched (opt_weighted opts) g (UndirectedLouvainIndex ptr g opts)"
proof -
  let ?s = "UndirectedLouvainIndex ptr g opts"
  have deg: "sum_list (map snd (entries ?s (starts ?s ! i) (starts ?s ! (i + 1))))
             = weighted_degree (opt_weighted opts) g (gnodes g ! i)"
    if "i < length (gnodes g)" for i
    using that ctor_block [OF assms(1) that, of ptr opts]
    by (simp add: ctor_starts_nth ctor_starts_Suc [OF assms] weighted_degree_def comp_def)
  have tot: "totalWeights ?s ! c
        = sum_list (map (\<lambda>i. if belongings ?s ! i = c
                               then weighted_degree (opt_weighted opts) g (gnodes g ! i) else 0)
            [0..<length (gnodes g)])" if "c < length (gnodes g)" for c
  proof -
    have "sum_list (map (\<lambda>i. if belongings ?s ! i = c
                               then weighted_degree (opt_weighted opts) g (gnodes g ! i) else 0)
            [0..<length (gnodes g)])
          = sum_list (map (\<lambda>i. if i = c
                               then weighted_degree (opt_weighted opts) g (gnodes g ! i) else 0)
            [0..<length (gnodes g)])"
      by (intro arg_cong [where f = sum_list] map_cong refl) (simp add: ctor_belongings)
    also have "\<dots> = weighted_degree (opt_weighted opts) g (gnodes g ! c)"
      using that by (rule sum_list_upt_single)
    finally show ?thesis
      using that by (simp add: ctor_totalWeights)
  qed
  show ?thesis
    unfolding matched_def
    using ctor_in_bounds deg tot by (simp add: ctor_scalars)
qed

lemma expensiveMove_matched:
  assumes "matched w g s" "i < C s" "t < C s"
  shows "matched w g (expensiveMove i t s)"
proof -
  let ?deg = "\<lambda>j. weighted_degree w g (gnodes g ! j)"
  let ?c = "belongings s ! i"
  let ?s' = "expensiveMove i t s"
  from assms(1) have ib: "in_bounds s" and n: "C s = length (gnodes g)"
    and lp: "loops s ! i = 0"
    and dg: "sum_list (map snd (entries s (starts s ! i) (starts s ! (i + 1)))) = ?deg i"
    and tot: "\<And>c. c < C s \<Longrightarrow> totalWeights s ! c
               = sum_list (map (\<lambda>j. if belongings s ! j = c then ?deg j else 0) [0..<C s])"
    using assms(2) by (simp_all add: matched_def)
  from ib assms(2) have c: "?c < C s" and len: "C s \<le> length (totalWeights s)"
    and lenb: "C s \<le> length (belongings s)"
    by (simp_all add: in_bounds_def)
  have em: "?s' = move i (?deg i) (fst (snd (scan s i t))) (snd (snd (scan s i t))) t s"
    unfolding expensiveMove_is_move scan_degree dg ..
  have ib': "in_bounds ?s'"
    unfolding em using ib assms(2,3) by (rule move_in_bounds)
  have ent: "entries ?s' lo hi = entries s lo hi" for lo hi
    unfolding em by (simp add: entries_def move_frame)
  have tw': "totalWeights ?s' ! c'
             = totalWeights s ! c' - (if c' = ?c then ?deg i else 0) + (if c' = t then ?deg i else 0)"
    if "c' < C s" for c'
    unfolding em move_totalWeights lp using that c assms(3) len
    by (simp add: nth_list_update)
  have mem: "sum_list (map (\<lambda>j. if belongings ?s' ! j = c' then ?deg j else 0) [0..<C s])
             = sum_list (map (\<lambda>j. if belongings s ! j = c' then ?deg j else 0) [0..<C s])
               - (if ?c = c' then ?deg i else 0) + (if t = c' then ?deg i else 0)" for c'
  proof -
    have "sum_list (map (\<lambda>j. if belongings ?s' ! j = c' then ?deg j else 0) [0..<C s])
          = sum_list (map (\<lambda>j. if belongings s ! j = c' then ?deg j else 0) [0..<C s])
            - (if belongings s ! i = c' then ?deg i else 0)
            + (if belongings ?s' ! i = c' then ?deg i else 0)"
      using assms(2)
      by (rule sum_list_upt_change) (simp add: em move_frame)
    moreover have "belongings ?s' ! i = t"
      using assms(2) lenb by (simp add: em move_frame)
    ultimately show ?thesis by simp
  qed
  have "totalWeights ?s' ! c'
        = sum_list (map (\<lambda>j. if belongings ?s' ! j = c' then ?deg j else 0) [0..<C s])"
    if "c' < C s" for c'
    unfolding tw' [OF that] mem tot [OF that] by auto
  moreover have "C ?s' = C s" "loops ?s' = loops s" "starts ?s' = starts s"
    by (simp_all add: em move_frame)
  ultimately show ?thesis
    using assms(1) ib' n unfolding matched_def by (simp add: ent)
qed

lemma matched_absent:
  assumes "matched w g s" "c < C s" "c \<notin> set (take (C s) (belongings s))"
  shows "totalWeights s ! c = 0"
proof -
  from assms(1) have lenb: "C s \<le> length (belongings s)"
    by (simp add: matched_def in_bounds_def)
  have "belongings s ! i \<noteq> c" if "i < C s" for i
    using assms(3) that lenb by (auto simp: in_set_conv_nth)
  then have "sum_list (map (\<lambda>i. if belongings s ! i = c then weighted_degree w g (gnodes g ! i) else 0)
            [0..<C s]) = sum_list (map (\<lambda>i. 0) [0..<C s])"
    by (intro arg_cong [where f = sum_list] map_cong refl) simp
  with assms(1,2) show ?thesis
    by (simp add: matched_def)
qed

lemma expensiveMove_frame:
  "C (expensiveMove i t s) = C s" "M (expensiveMove i t s) = M s"
  by (simp_all add: expensiveMove_is_move move_frame)

lemma run_moves:
  assumes "in_bounds s" "valid ops s" "list_all is_move ops"
  shows "in_bounds (run ops s) \<and> sum_totalWeights (run ops s) = sum_totalWeights s
         \<and> M (run ops s) = M s \<and> C (run ops s) = C s"
  using assms
proof (induction ops arbitrary: s)
  case Nil
  then show ?case by simp
next
  case (Cons x ops)
  show ?case
  proof (cases x)
    case (Move i d cd td t)
    with Cons.prems have r: "i < C s" "t < C s" and v: "valid ops (move i d cd td t s)"
      and m: "list_all is_move ops"
      by simp_all
    from Cons.IH [OF move_in_bounds [OF Cons.prems(1) r] v m]
    show ?thesis
      by (simp add: Move move_sum [OF Cons.prems(1) r] move_frame)
  next
    case (ExpensiveMove i t)
    with Cons.prems have r: "i < C s" "t < C s" and v: "valid ops (expensiveMove i t s)"
      and m: "list_all is_move ops"
      by simp_all
    have ib: "in_bounds (expensiveMove i t s)"
      unfolding expensiveMove_is_move by (rule move_in_bounds [OF Cons.prems(1) r])
    have sm: "sum_totalWeights (expensiveMove i t s) = sum_totalWeights s"
      unfolding expensiveMove_is_move by (rule move_sum [OF Cons.prems(1) r])
    from Cons.IH [OF ib v m]
    show ?thesis
      by (simp add: ExpensiveMove sm expensiveMove_frame)
  next
    case ZoomOut
    with Cons.prems show ?thesis by simp
  qed
qed

lemma run_expensiveMoves:
  assumes "matched w g s" "valid ops s" "list_all is_expensiveMove ops"
  shows "matched w g (run ops s)"
  using assms
proof (induction ops arbitrary: s)
  case Nil
  then show ?case by simp
next
  case (Cons x ops)
  from Cons.prems(3) obtain i t where x: "x = ExpensiveMove i t"
    by (cases x) simp_all
  with Cons.prems have r: "i < C s" "t < C s" and v: "valid ops (expensiveMove i t s)"
    and m: "list_all is_expensiveMove ops"
    by simp_all
  from Cons.IH [OF expensiveMove_matched [OF Cons.prems(1) r] v m]
  show ?case by (simp add: x)
qed

text \<open>
  C1, amended. For every undirected input graph without self-loops, the stores into
  \<open>starts\<close> fitting, the sum of \<open>totalWeights\<close> over the current communities \<open>0..C-1\<close> is
  \<open>2*M\<close>, with \<open>M\<close> the total edge weight fixed at build time, right after construction and
  after every sequence of in-range moves made from there, whatever their degree arguments;
  and it still is after the \<open>zoomOut\<close> that follows a sequence of \<open>expensiveMove\<close> calls, the
  moves whose degree arguments are the adjacency sums of the node, and after every sequence
  of in-range moves made after that \<open>zoomOut\<close>, provided that every weight this \<open>zoomOut\<close>
  reads exists.
\<close>

theorem sum_totalWeights_invariant:
  assumes "wf_graph g" "no_self_loops g" "starts_fit g"
    and "valid ops (UndirectedLouvainIndex ptr g opts)" "list_all is_move ops"
  shows "sum_totalWeights (run ops (UndirectedLouvainIndex ptr g opts))
           = 2 * M (run ops (UndirectedLouvainIndex ptr g opts))
       \<and> M (run ops (UndirectedLouvainIndex ptr g opts)) = total_edge_weight (opt_weighted opts) g
       \<and> (list_all is_expensiveMove ops
            \<and> weight_reads_defined (run ops (UndirectedLouvainIndex ptr g opts))
            \<and> valid ops' (zoomOut (run ops (UndirectedLouvainIndex ptr g opts)))
            \<and> list_all is_move ops' \<longrightarrow>
            sum_totalWeights (run ops' (zoomOut (run ops (UndirectedLouvainIndex ptr g opts))))
              = 2 * M (run ops' (zoomOut (run ops (UndirectedLouvainIndex ptr g opts))))
          \<and> M (run ops' (zoomOut (run ops (UndirectedLouvainIndex ptr g opts))))
              = total_edge_weight (opt_weighted opts) g)"
proof -
  let ?init = "UndirectedLouvainIndex ptr g opts"
  let ?w = "opt_weighted opts"
  let ?z = "zoomOut (run ops ?init)"
  have m0: "M ?init = total_edge_weight ?w g"
    by (simp add: ctor_M counted_total [OF assms(1,2)])
  have "sum_totalWeights ?init = sum_list (map (weighted_degree ?w g) (gnodes g))"
    using sum_list_nth_take [of "length (gnodes g)" "map (weighted_degree ?w g) (gnodes g)"]
    by (simp add: sum_totalWeights_def ctor_scalars ctor_totalWeights)
  then have s0: "sum_totalWeights ?init = 2 * total_edge_weight ?w g"
    by (simp add: degree_total [OF assms(1,2)])
  from run_moves [OF ctor_in_bounds assms(4,5)]
  have mv: "in_bounds (run ops ?init)" "sum_totalWeights (run ops ?init) = sum_totalWeights ?init"
    "M (run ops ?init) = M ?init"
    by simp_all
  have zo: "sum_totalWeights (run ops' ?z) = sum_totalWeights (run ops ?init)
            \<and> M (run ops' ?z) = M (run ops ?init)"
    if e: "list_all is_expensiveMove ops" and v: "valid ops' ?z" and m: "list_all is_move ops'"
  proof -
    have "matched ?w g (run ops ?init)"
      using ctor_matched [OF assms(1,2)] assms(4) e by (rule run_expensiveMoves)
    then have "sum_totalWeights ?z = sum_totalWeights (run ops ?init)"
      using mv(1) by (intro zoomOut_sum) (auto dest: matched_absent)
    moreover from run_moves [OF zoomOut_in_bounds [OF mv(1)] v m]
    have "sum_totalWeights (run ops' ?z) = sum_totalWeights ?z" "M (run ops' ?z) = M ?z"
      by simp_all
    ultimately show ?thesis
      by (simp add: zoomOut_frame)
  qed
  show ?thesis
    using mv(2,3) m0 s0 zo by simp
qed

theorem sum_totalWeights_invariant_witness:
  "wf_graph fork_graph \<and> no_self_loops fork_graph \<and> starts_fit fork_graph
   \<and> valid [ExpensiveMove 1 0] (UndirectedLouvainIndex 256 fork_graph defaults)
   \<and> list_all is_move [ExpensiveMove 1 0]
   \<and> list_all is_expensiveMove [ExpensiveMove 1 0]
   \<and> weight_reads_defined
        (run [ExpensiveMove 1 0] (UndirectedLouvainIndex 256 fork_graph defaults))
   \<and> valid [Move 1 2 0 0 0]
        (zoomOut (run [ExpensiveMove 1 0] (UndirectedLouvainIndex 256 fork_graph defaults)))
   \<and> list_all is_move [Move 1 2 0 0 0]
   \<and> sum_totalWeights (run [ExpensiveMove 1 0] (UndirectedLouvainIndex 256 fork_graph defaults)) = 4
   \<and> M (run [ExpensiveMove 1 0] (UndirectedLouvainIndex 256 fork_graph defaults)) = 2
   \<and> sum_totalWeights
        (run [Move 1 2 0 0 0]
           (zoomOut (run [ExpensiveMove 1 0] (UndirectedLouvainIndex 256 fork_graph defaults)))) = 4
   \<and> M (run [Move 1 2 0 0 0]
           (zoomOut (run [ExpensiveMove 1 0] (UndirectedLouvainIndex 256 fork_graph defaults)))) = 2"
proof -
  let ?init = "UndirectedLouvainIndex 256 fork_graph defaults"
  have wf: "wf_graph fork_graph"
    by (simp add: wf_graph_def fork_graph_def)
  have nl: "no_self_loops fork_graph"
    by (simp add: no_self_loops_def fork_graph_def)
  have fit: "starts_fit fork_graph"
    by code_simp
  have v: "valid [ExpensiveMove 1 0] ?init"
    by (simp add: ctor_scalars fork_graph_def)
  have m: "list_all is_move [ExpensiveMove 1 0]"
    by simp
  have e: "list_all is_expensiveMove [ExpensiveMove 1 0]"
    by simp
  have rd: "weight_reads_defined (run [ExpensiveMove 1 0] ?init)"
    by code_simp
  have v': "valid [Move 1 2 0 0 0] (zoomOut (run [ExpensiveMove 1 0] ?init))"
    by code_simp
  have m': "list_all is_move [Move 1 2 0 0 0]"
    by simp
  have t: "total_edge_weight (opt_weighted defaults) fork_graph = 2"
    by code_simp
  note inst = sum_totalWeights_invariant [OF wf nl fit v m, of "[Move 1 2 0 0 0]", unfolded t]
  note a = conjunct1 [OF inst]
  note b = conjunct1 [OF conjunct2 [OF inst]]
  have c: "sum_totalWeights (run [Move 1 2 0 0 0] (zoomOut (run [ExpensiveMove 1 0] ?init)))
             = 2 * M (run [Move 1 2 0 0 0] (zoomOut (run [ExpensiveMove 1 0] ?init)))
           \<and> M (run [Move 1 2 0 0 0] (zoomOut (run [ExpensiveMove 1 0] ?init))) = 2"
    using conjunct2 [OF conjunct2 [OF inst]] e rd v' m' by blast
  have a': "sum_totalWeights (run [ExpensiveMove 1 0] ?init) = 4"
    unfolding a b by simp
  have c': "sum_totalWeights (run [Move 1 2 0 0 0] (zoomOut (run [ExpensiveMove 1 0] ?init))) = 4"
    unfolding conjunct1 [OF c] conjunct2 [OF c] by simp
  show ?thesis
    by (intro conjI wf nl fit v m e rd v' m' a' b c' conjunct2 [OF c])
qed

text \<open>
  C1, as stated, at the graph of one node with a self-loop: right after construction the
  sum of \<open>totalWeights\<close> is 1 and \<open>2*M\<close> is 0.
\<close>

theorem sum_totalWeights_self_loop_counterexample:
  "sum_totalWeights (UndirectedLouvainIndex 256 loop_graph defaults) = 1
   \<and> 2 * M (UndirectedLouvainIndex 256 loop_graph defaults) = 0"
  by code_simp

text \<open>
  At the path a - b - c with weights 5 and 1: the first \<open>zoomOut\<close> keeps the sum at
  \<open>2*M = 12\<close>, but gives community 2 an adjacency sum of 5 for a total weight of 1; after
  \<open>expensiveMove(2, 1)\<close> and a second \<open>zoomOut\<close> the sum is 16.
\<close>

theorem sum_totalWeights_second_zoomOut:
  "sum_totalWeights (zoomOut (UndirectedLouvainIndex 256 chain_graph weighted_options)) = 12
   \<and> sum_totalWeights
        (zoomOut (expensiveMove 2 1 (zoomOut (UndirectedLouvainIndex 256 chain_graph weighted_options))))
       = 16
   \<and> M (zoomOut (expensiveMove 2 1 (zoomOut (UndirectedLouvainIndex 256 chain_graph weighted_options))))
       = 6"
  by code_simp


section \<open>The dendrogram and collect\<close>

lemma length_compose_levels [simp]: "length (compose_levels N bs) = N"
proof -
  have "length (fold (\<lambda>b m. map (\<lambda>x. b ! x) m) bs m) = length m" for m :: "nat list"
    by (induction bs arbitrary: m) simp_all
  then show ?thesis by (simp add: compose_levels_def)
qed

lemma compose_levels_snoc:
  "compose_levels N (bs @ [b]) = map (\<lambda>x. b ! x) (compose_levels N bs)"
  by (simp add: compose_levels_def)

lemma fold_in_place:
  assumes "length m = N"
  shows "fold (\<lambda>i m. m[i := b ! (m ! i)]) [0..<N] m = map (\<lambda>x. b ! x) m"
proof -
  have "fold (\<lambda>i ys. ys[i := b ! (ys ! i)]) [0..<N] m
        = map (\<lambda>i. b ! (m ! i)) [0..<N] @ drop N m"
    using assms fold_update_closed [of N m "\<lambda>i v. b ! v"] by simp
  also have "map (\<lambda>i. b ! (m ! i)) [0..<N] = map (\<lambda>x. b ! x) m"
    unfolding assms [symmetric] by (rule map_nth_upt)
  finally show ?thesis
    using assms by simp
qed

lemma ctor_history_ok:
  "history_ok (length (gnodes g)) (UndirectedLouvainIndex ptr g opts) []"
  by (simp add: history_ok_def ctor_scalars ctor_history compose_levels_def)

lemma move_history_ok:
  "history_ok N s h \<Longrightarrow> history_ok N (move i d cd td t s) h"
  by (simp add: history_ok_def move_frame)

lemma zoomOut_history_ok:
  assumes "history_ok N s h"
  shows "history_ok N (zoomOut s) (h @ [renumbered s])"
proof -
  let ?b = "renumbered s"
  let ?a = "actualize (s\<lparr>belongings := ?b\<rparr>)"
  from assms have lv: "level s = length h" and n: "length (nodes s) = N"
    by (simp_all add: history_ok_def)
  show ?thesis
  proof (cases "keepDendrogram s")
    case True
    with assms have d: "dendrogram s = map (\<lambda>l. compose_levels N (take l h)) [0..<length h + 1]"
      by (simp add: history_ok_def)
    then have cur: "dendrogram s ! level s = compose_levels N h"
      by (simp add: lv nth_append)
    have "dendrogram ?a = dendrogram s @ [map (\<lambda>i. ?b ! (compose_levels N h ! i)) [0..<N]]"
      using True by (simp add: actualize_def Let_def cur n)
    also have "map (\<lambda>i. ?b ! (compose_levels N h ! i)) [0..<N] = compose_levels N (h @ [?b])"
      unfolding compose_levels_snoc
      using map_nth_upt [of "\<lambda>x. ?b ! x" "compose_levels N h"] by simp
    finally have "dendrogram ?a
        = map (\<lambda>l. compose_levels N (take l (h @ [?b]))) [0..<length (h @ [?b]) + 1]"
      by (simp add: d)
    then show ?thesis
      using True lv n by (simp add: history_ok_def zoomOut_frame)
  next
    case False
    with assms have m: "mapping s = Some (compose_levels N h)"
      by (simp add: history_ok_def)
    have "mapping ?a = Some (fold (\<lambda>i m. m[i := ?b ! (m ! i)]) [0..<N] (compose_levels N h))"
      using False by (simp add: actualize_def Let_def m n)
    also have "\<dots> = Some (compose_levels N (h @ [?b]))"
      by (simp add: fold_in_place compose_levels_snoc)
    finally show ?thesis
      using False lv n by (simp add: history_ok_def zoomOut_frame)
  qed
qed

lemma run_history_ok:
  "history_ok N s h \<Longrightarrow> history_ok N (run ops s) (h @ levels ops s)"
proof (induction ops arbitrary: s h)
  case Nil
  then show ?case by simp
next
  case (Cons x ops)
  show ?case
  proof (cases x)
    case (Move i d cd td t)
    from Cons.IH [OF move_history_ok [OF Cons.prems]]
    show ?thesis by (simp add: Move)
  next
    case (ExpensiveMove i t)
    have "history_ok N (expensiveMove i t s) h"
      unfolding expensiveMove_is_move by (rule move_history_ok [OF Cons.prems])
    from Cons.IH [OF this]
    show ?thesis by (simp add: ExpensiveMove)
  next
    case ZoomOut
    from Cons.IH [OF zoomOut_history_ok [OF Cons.prems]]
    show ?thesis by (simp add: ZoomOut)
  qed
qed

lemma run_frame:
  "keepDendrogram (run ops s) = keepDendrogram s" "nodes (run ops s) = nodes s"
proof (induction ops arbitrary: s)
  case Nil
  case 1 show ?case by simp
  case 2 show ?case by simp
next
  case (Cons x ops)
  case 1 show ?case
    by (cases x) (simp_all add: Cons move_frame expensiveMove_is_move zoomOut_frame)
  case 2 show ?case
    by (cases x) (simp_all add: Cons move_frame expensiveMove_is_move zoomOut_frame)
qed

lemma levels_moves: "list_all is_move ops \<Longrightarrow> levels ops s = []"
proof (induction ops arbitrary: s)
  case Nil
  then show ?case by simp
next
  case (Cons x ops)
  then show ?case by (cases x) simp_all
qed

lemma run_moves_shape:
  "list_all is_move ops \<Longrightarrow>
   C (run ops s) = C s \<and> length (belongings (run ops s)) = length (belongings s)"
proof (induction ops arbitrary: s)
  case Nil
  then show ?case by simp
next
  case (Cons x ops)
  then show ?case
    by (cases x) (simp_all add: move_frame expensiveMove_is_move)
qed

lemma collect_current:
  assumes "history_ok N s h"
  shows "collect s None = Some (as_object (nodes s) (compose_levels N h))"
proof (cases "keepDendrogram s")
  case True
  with assms have "dendrogram s = map (\<lambda>l. compose_levels N (take l h)) [0..<length h + 1]"
    and "level s = length h"
    by (simp_all add: history_ok_def)
  then show ?thesis
    using True by (simp add: collect_def as_object_def nth_append)
next
  case False
  with assms have "mapping s = Some (compose_levels N h)"
    by (simp add: history_ok_def)
  then show ?thesis
    using False by (simp add: collect_def as_object_def)
qed

lemma compose_levels_single:
  assumes "length b = N"
  shows "compose_levels N [b] = b"
  unfolding compose_levels_def assms [symmetric]
  by (simp add: map_nth)

text \<open>
  C3, amended. With the dendrogram retained, for every level \<open>l\<close> from 0 up to the current
  level, \<open>collect(l)\<close> returns the node-key-to-community-id mapping at level \<open>l\<close>: the
  composition of the per-level belongings arrays, as renumbered by each \<open>zoomOut\<close>, up
  through level \<open>l\<close>. Without it the index keeps the flattened mapping only, which always
  equals that composition through the current level, and \<open>collect(l)\<close> returns it for
  every \<open>l\<close>. In both cases \<open>collect()\<close> returns the mapping of the current level; after one
  \<open>zoomOut\<close> it maps each node to the renumbered pre-coarsening community of the node.
\<close>

theorem collect_levels:
  "level (run ops (UndirectedLouvainIndex ptr g opts))
     = length (levels ops (UndirectedLouvainIndex ptr g opts))
   \<and> (opt_keepDendrogram opts \<longrightarrow>
        (\<forall>l \<le> level (run ops (UndirectedLouvainIndex ptr g opts)).
           collect (run ops (UndirectedLouvainIndex ptr g opts)) (Some l)
             = Some (as_object (gnodes g)
                 (compose_levels (length (gnodes g))
                    (take l (levels ops (UndirectedLouvainIndex ptr g opts)))))))
   \<and> (\<not> opt_keepDendrogram opts \<longrightarrow>
        (\<forall>l. collect (run ops (UndirectedLouvainIndex ptr g opts)) (Some l)
             = Some (as_object (gnodes g)
                 (compose_levels (length (gnodes g))
                    (levels ops (UndirectedLouvainIndex ptr g opts))))))
   \<and> collect (run ops (UndirectedLouvainIndex ptr g opts)) None
        = Some (as_object (gnodes g)
            (compose_levels (length (gnodes g)) (levels ops (UndirectedLouvainIndex ptr g opts))))
   \<and> (list_all is_move ops \<longrightarrow>
        collect (zoomOut (run ops (UndirectedLouvainIndex ptr g opts))) None
          = Some (as_object (gnodes g) (renumbered (run ops (UndirectedLouvainIndex ptr g opts)))))"
proof -
  let ?init = "UndirectedLouvainIndex ptr g opts"
  let ?s = "run ops ?init"
  let ?h = "levels ops ?init"
  let ?N = "length (gnodes g)"
  have "history_ok ?N ?s ([] @ ?h)"
    by (rule run_history_ok [OF ctor_history_ok])
  then have ok: "history_ok ?N ?s ?h" by simp
  have kd: "keepDendrogram ?s = opt_keepDendrogram opts" and ns: "nodes ?s = gnodes g"
    by (simp_all add: run_frame ctor_scalars)
  from ok have lv: "level ?s = length ?h"
    by (simp add: history_ok_def)
  have keep: "collect ?s (Some l) = Some (as_object (gnodes g) (compose_levels ?N (take l ?h)))"
    if "opt_keepDendrogram opts" "l \<le> level ?s" for l
  proof -
    from ok that(1) have "dendrogram ?s = map (\<lambda>l. compose_levels ?N (take l ?h)) [0..<length ?h + 1]"
      by (simp add: history_ok_def kd)
    then show ?thesis
      using that by (simp add: collect_def kd ns lv as_object_def nth_append)
  qed
  have flat: "collect ?s (Some l) = Some (as_object (gnodes g) (compose_levels ?N ?h))"
    if "\<not> opt_keepDendrogram opts" for l
  proof -
    from ok that have "mapping ?s = Some (compose_levels ?N ?h)"
      by (simp add: history_ok_def kd)
    then show ?thesis
      using that by (simp add: collect_def kd ns as_object_def)
  qed
  have cur: "collect ?s None = Some (as_object (gnodes g) (compose_levels ?N ?h))"
    using collect_current [OF ok] by (simp add: ns)
  have one: "collect (zoomOut ?s) None = Some (as_object (gnodes g) (renumbered ?s))"
    if "list_all is_move ops"
  proof -
    from that have h: "?h = []"
      by (rule levels_moves)
    from run_moves_shape [OF that, of ?init]
    have "C ?s \<le> length (belongings ?s)" and len: "length (belongings ?s) = ?N"
      by (simp_all add: ctor_scalars ctor_belongings)
    then have "length (renumbered ?s) = ?N"
      by (simp add: length_renumbered)
    then have "compose_levels ?N [renumbered ?s] = renumbered ?s"
      by (rule compose_levels_single)
    moreover have "history_ok ?N (zoomOut ?s) (?h @ [renumbered ?s])"
      using ok by (rule zoomOut_history_ok)
    ultimately show ?thesis
      using collect_current [of ?N "zoomOut ?s" "[renumbered ?s]"]
      by (simp add: h zoomOut_frame ns)
  qed
  show ?thesis
    using lv keep flat cur one by simp
qed

theorem collect_levels_witness:
  "opt_keepDendrogram dendrogram_options
   \<and> (1::nat) \<le> level (run [ExpensiveMove 1 0, ZoomOut]
                      (UndirectedLouvainIndex 256 fork_graph dendrogram_options))
   \<and> collect (run [ExpensiveMove 1 0, ZoomOut]
                (UndirectedLouvainIndex 256 fork_graph dendrogram_options)) (Some 1)
       = Some (as_object (gnodes fork_graph) [0, 0, 1])
   \<and> collect (run [ExpensiveMove 1 0, ZoomOut]
                (UndirectedLouvainIndex 256 fork_graph dendrogram_options)) (Some 0)
       = Some (as_object (gnodes fork_graph) [0, 1, 2])
   \<and> \<not> opt_keepDendrogram defaults
   \<and> collect (run [ExpensiveMove 1 0, ZoomOut]
                (UndirectedLouvainIndex 256 fork_graph defaults)) (Some 0)
       = Some (as_object (gnodes fork_graph) [0, 0, 1])
   \<and> list_all is_move [ExpensiveMove 1 0]
   \<and> collect (zoomOut (run [ExpensiveMove 1 0] (UndirectedLouvainIndex 256 fork_graph defaults)))
        None
       = Some (as_object (gnodes fork_graph) [0, 0, 1])"
proof -
  let ?ops = "[ExpensiveMove 1 0, ZoomOut]"
  let ?init = "UndirectedLouvainIndex 256 fork_graph dendrogram_options"
  let ?flat = "UndirectedLouvainIndex 256 fork_graph defaults"
  have k: "opt_keepDendrogram dendrogram_options"
    by (simp add: dendrogram_options_def)
  have nk: "\<not> opt_keepDendrogram defaults"
    by (simp add: defaults_def)
  have mv: "list_all is_move [ExpensiveMove 1 0]"
    by simp
  have l1: "(1::nat) \<le> level (run ?ops ?init)"
    by code_simp
  have l0: "(0::nat) \<le> level (run ?ops ?init)"
    by simp
  have c1: "compose_levels (length (gnodes fork_graph)) (take 1 (levels ?ops ?init)) = [0, 0, 1]"
    by code_simp
  have c0: "compose_levels (length (gnodes fork_graph)) (take 0 (levels ?ops ?init)) = [0, 1, 2]"
    by code_simp
  have cf: "compose_levels (length (gnodes fork_graph)) (levels ?ops ?flat) = [0, 0, 1]"
    by code_simp
  have rn: "renumbered (run [ExpensiveMove 1 0] ?flat) = [0, 0, 1]"
    by code_simp
  note inst = conjunct1 [OF conjunct2 [OF collect_levels [of ?ops 256 fork_graph dendrogram_options]],
      rule_format, OF k]
  note flat = conjunct1 [OF conjunct2 [OF conjunct2 [OF collect_levels [of ?ops 256 fork_graph defaults]]],
      rule_format, OF nk, of 0, unfolded cf]
  note one = conjunct2 [OF conjunct2 [OF conjunct2 [OF conjunct2
      [OF collect_levels [of "[ExpensiveMove 1 0]" 256 fork_graph defaults]]]],
      rule_format, OF mv, unfolded rn]
  show ?thesis
    by (intro conjI k l1 inst [OF l1, unfolded c1] inst [OF l0, unfolded c0] nk flat mv one)
qed

text \<open>
  C3, as stated, at the graph with edges a - c and b - c, the dendrogram not retained,
  after b joined the community of a and one \<open>zoomOut\<close>: the current level is 1, and
  \<open>collect(0)\<close> maps b to community 0, while the mapping at level 0 (the composition of no
  belongings array) maps b to 1.
\<close>

theorem collect_flattened_counterexample:
  "level (run [ExpensiveMove 1 0, ZoomOut] (UndirectedLouvainIndex 256 fork_graph defaults)) = 1
   \<and> map_option (\<lambda>ob. ob ''b'')
        (collect (run [ExpensiveMove 1 0, ZoomOut] (UndirectedLouvainIndex 256 fork_graph defaults))
           (Some 0))
       = Some (Some 0)
   \<and> as_object (gnodes fork_graph)
        (compose_levels (length (gnodes fork_graph))
           (take 0 (levels [ExpensiveMove 1 0, ZoomOut]
                      (UndirectedLouvainIndex 256 fork_graph defaults)))) ''b''
       = Some 1"
  by code_simp


section \<open>The delta of an isolated node\<close>

lemma move_internalWeights:
  "internalWeights (move i d cd td t s)
   = ((internalWeights s)[belongings s ! i :=
         internalWeights s ! (belongings s ! i) - (cd * 2 + loops s ! i)])
       [t := ((internalWeights s)[belongings s ! i :=
                 internalWeights s ! (belongings s ! i) - (cd * 2 + loops s ! i)]) ! t
             + (td * 2 + loops s ! i)]"
  by (simp add: move_def Let_def split: option.split)

lemma length_move_weights [simp]:
  "length (totalWeights (move i d cd td t s)) = length (totalWeights s)"
  "length (internalWeights (move i d cd td t s)) = length (internalWeights s)"
  by (simp_all add: move_totalWeights move_internalWeights)

lemma sum_list_upt_change2:
  fixes f g :: "nat \<Rightarrow> real"
  assumes "c < n" "t < n" "c \<noteq> t" "\<And>j. j \<noteq> c \<Longrightarrow> j \<noteq> t \<Longrightarrow> g j = f j"
  shows "sum_list (map g [0..<n]) = sum_list (map f [0..<n]) - f c - f t + g c + g t"
proof -
  let ?h = "f(c := g c)"
  have "sum_list (map ?h [0..<n]) = sum_list (map f [0..<n]) - f c + ?h c"
    using assms(1) by (rule sum_list_upt_change) simp
  moreover have "sum_list (map g [0..<n]) = sum_list (map ?h [0..<n]) - ?h t + g t"
    using assms(2) by (rule sum_list_upt_change) (simp add: assms(4))
  ultimately show ?thesis
    using assms(3) by simp
qed

lemma delta_finite:
  assumes "M s \<noteq> 0" "t < length (totalWeights s)"
  shows "delta s d dt t = Some (dt / M s - totalWeights s ! t * d / (2 * M s * M s))"
  using assms
  by (simp add: delta_def Let_def cell_def num_div_def num_sub_def num_mul_def)

lemma delta_not_finite:
  "M s = 0 \<Longrightarrow> delta s d dt t = None"
  by (simp add: delta_def Let_def num_div_def num_sub_def)

lemma delta_is_gain:
  assumes "M s \<noteq> 0"
    and "belongings s ! i < C s" "t < C s" "belongings s ! i \<noteq> t"
    and "C s \<le> length (totalWeights s)" "C s \<le> length (internalWeights s)"
    and "totalWeights s ! (belongings s ! i) = d + loops s ! i"
    and "internalWeights s ! (belongings s ! i) = loops s ! i"
  shows "num_sub (modularity (move i d 0 dt t s)) (modularity s)
         = delta s (d + loops s ! i) dt t"
proof -
  let ?c = "belongings s ! i"
  let ?l = "loops s ! i"
  let ?q = "\<lambda>s k. internalWeights s ! k / (M s * 2) - (totalWeights s ! k / (M s * 2)) ^ 2"
  let ?s' = "move i d 0 dt t s"
  from assms have lt: "?c < length (totalWeights s)" "t < length (totalWeights s)"
    "?c < length (internalWeights s)" "t < length (internalWeights s)"
    by simp_all
  have same: "?q ?s' j = ?q s j" if "j \<noteq> ?c" "j \<noteq> t" for j
    using that by (simp add: move_frame move_totalWeights move_internalWeights)
  have qc: "?q ?s' ?c = 0"
    using lt assms(4,7,8)
    by (simp add: move_frame move_totalWeights move_internalWeights)
  have qt: "?q ?s' t
            = (internalWeights s ! t + (dt * 2 + ?l)) / (M s * 2)
              - ((totalWeights s ! t + (d + ?l)) / (M s * 2)) ^ 2"
    using lt assms(4)
    by (simp add: move_frame move_totalWeights move_internalWeights)
  have before: "modularity s = Some (sum_list (map (?q s) [0..<C s]))"
    using assms(1,6,5) by (rule modularity_finite)
  have "modularity ?s' = Some (sum_list (map (?q ?s') [0..<C ?s']))"
    using assms(1,5,6) by (intro modularity_finite) (simp_all add: move_frame)
  then have after: "modularity ?s' = Some (sum_list (map (?q ?s') [0..<C s]))"
    by (simp add: move_frame)
  have "sum_list (map (?q ?s') [0..<C s])
        = sum_list (map (?q s) [0..<C s]) - ?q s ?c - ?q s t + ?q ?s' ?c + ?q ?s' t"
    using assms(2,3,4) by (rule sum_list_upt_change2) (rule same)
  then have "sum_list (map (?q ?s') [0..<C s]) - sum_list (map (?q s) [0..<C s])
             = ?q ?s' ?c + ?q ?s' t - ?q s ?c - ?q s t"
    by simp
  also have "\<dots> = dt / M s - totalWeights s ! t * (d + ?l) / (2 * M s * M s)"
    unfolding qc qt assms(7,8)
    using assms(1) by (simp add: field_simps power2_eq_square)
  finally have "num_sub (modularity ?s') (modularity s)
                = Some (dt / M s - totalWeights s ! t * (d + ?l) / (2 * M s * M s))"
    unfolding before after by (simp add: num_sub_def)
  then show ?thesis
    using delta_finite [OF assms(1) lt(2)] by simp
qed

text \<open>
  C7, as stated, at the path a - b - c with weights 5 and 1, after a joined the community
  of b and the graph was coarsened: node 0, the community of a and b, is alone in its
  community, its self-loop weight is 10 and its degree, as \<open>expensiveMove\<close> computes it and
  passes it to \<open>move\<close>, is 1, of which 1 towards community 1. \<open>delta(1, 1, 1)\<close> is \<open>11/72\<close>,
  and moving node 0 into community 1 changes \<open>modularity()\<close> by \<open>1/72\<close>.
\<close>

theorem delta_gain_counterexample:
  "C (zoomOut (expensiveMove 0 1 (UndirectedLouvainIndex 256 chain_graph weighted_options))) = 2
   \<and> take 2 (belongings
        (zoomOut (expensiveMove 0 1 (UndirectedLouvainIndex 256 chain_graph weighted_options))))
       = [0, 1]
   \<and> loops (zoomOut (expensiveMove 0 1 (UndirectedLouvainIndex 256 chain_graph weighted_options)))
        ! 0 = 10
   \<and> scan (zoomOut (expensiveMove 0 1 (UndirectedLouvainIndex 256 chain_graph weighted_options)))
        0 1 = (1, 0, 1)
   \<and> isolated (zoomOut (expensiveMove 0 1 (UndirectedLouvainIndex 256 chain_graph weighted_options)))
        0 1
   \<and> delta (zoomOut (expensiveMove 0 1 (UndirectedLouvainIndex 256 chain_graph weighted_options)))
        1 1 1 = Some (11 / 72)
   \<and> num_sub
        (modularity (move 0 1 0 1 1
           (zoomOut (expensiveMove 0 1 (UndirectedLouvainIndex 256 chain_graph weighted_options)))))
        (modularity
           (zoomOut (expensiveMove 0 1 (UndirectedLouvainIndex 256 chain_graph weighted_options))))
       = Some (1 / 72)
   \<and> delta (zoomOut (expensiveMove 0 1 (UndirectedLouvainIndex 256 chain_graph weighted_options)))
        1 1 1
     \<noteq> num_sub
        (modularity (move 0 1 0 1 1
           (zoomOut (expensiveMove 0 1 (UndirectedLouvainIndex 256 chain_graph weighted_options)))))
        (modularity
           (zoomOut (expensiveMove 0 1 (UndirectedLouvainIndex 256 chain_graph weighted_options))))"
  by code_simp

text \<open>
  C7, amended. For every degree \<open>d\<close>, target-community degree \<open>dt\<close> and in-range target
  community \<open>t\<close>, when \<open>M\<close> is not 0, \<open>delta(d, dt, t)\<close> is \<open>dt/M - totalWeights[t]*d/(2*M*M)\<close>;
  and this is the modularity gain of moving an isolated node into community \<open>t\<close> when \<open>d\<close> is
  the node's adjacency sum plus its self-loop weight: when node \<open>i\<close>, of adjacency sum \<open>d'\<close>,
  is alone in its community, \<open>move(i, d', 0, dt, t)\<close> changes \<open>modularity()\<close> by \<open>delta\<close> at the
  degree \<open>d' + loops[i]\<close> (at level 0, where \<open>loops[i]\<close> is 0, at the adjacency sum itself).
\<close>

theorem delta_formula:
  assumes "M s \<noteq> 0" "t < C s" "C s \<le> length (totalWeights s)"
  shows "delta s d dt t = Some (dt / M s - totalWeights s ! t * d / (2 * M s * M s))
       \<and> (C s \<le> length (internalWeights s) \<and> isolated s i d' \<and> belongings s ! i \<noteq> t \<longrightarrow>
            num_sub (modularity (move i d' 0 dt t s)) (modularity s)
              = delta s (d' + loops s ! i) dt t)"
proof -
  from assms(2,3) have t: "t < length (totalWeights s)"
    by simp
  have gain: "num_sub (modularity (move i d' 0 dt t s)) (modularity s)
              = delta s (d' + loops s ! i) dt t"
    if "C s \<le> length (internalWeights s)" "isolated s i d'" "belongings s ! i \<noteq> t"
    using assms that by (intro delta_is_gain) (simp_all add: isolated_def)
  show ?thesis
    using delta_finite [OF assms(1) t] gain by blast
qed

theorem delta_formula_witness:
  "M (zoomOut (expensiveMove 0 1 (UndirectedLouvainIndex 256 chain_graph weighted_options))) \<noteq> 0
   \<and> (1::nat) < C (zoomOut (expensiveMove 0 1
                     (UndirectedLouvainIndex 256 chain_graph weighted_options)))
   \<and> isolated (zoomOut (expensiveMove 0 1 (UndirectedLouvainIndex 256 chain_graph weighted_options)))
        0 1
   \<and> delta (zoomOut (expensiveMove 0 1 (UndirectedLouvainIndex 256 chain_graph weighted_options)))
        11 1 1 = Some (1 / 72)
   \<and> num_sub
        (modularity (move 0 1 0 1 1
           (zoomOut (expensiveMove 0 1 (UndirectedLouvainIndex 256 chain_graph weighted_options)))))
        (modularity
           (zoomOut (expensiveMove 0 1 (UndirectedLouvainIndex 256 chain_graph weighted_options))))
       = Some (1 / 72)"
proof -
  let ?s = "zoomOut (expensiveMove 0 1 (UndirectedLouvainIndex 256 chain_graph weighted_options))"
  have nz: "M ?s \<noteq> 0"
    by code_simp
  have t: "(1::nat) < C ?s"
    by code_simp
  have len: "C ?s \<le> length (totalWeights ?s)"
    by code_simp
  have m: "M ?s = 6"
    by code_simp
  have tw: "totalWeights ?s ! 1 = 1"
    by code_simp
  have lp: "loops ?s ! 0 = 10"
    by code_simp
  have iso: "isolated ?s 0 1"
    by code_simp
  have pre: "C ?s \<le> length (internalWeights ?s) \<and> isolated ?s 0 1 \<and> belongings ?s ! 0 \<noteq> 1"
    by code_simp
  note inst = delta_formula [OF nz t len, of 11 1 0 1]
  have "delta ?s 11 1 1 = Some (1 / 6 - 1 * 11 / (2 * 6 * 6))"
    using conjunct1 [OF inst] unfolding m tw .
  then have d: "delta ?s 11 1 1 = Some (1 / 72)"
    by simp
  have "num_sub (modularity (move 0 1 0 1 1 ?s)) (modularity ?s) = delta ?s (1 + loops ?s ! 0) 1 1"
    using conjunct2 [OF inst] pre by (rule mp)
  then have g: "num_sub (modularity (move 0 1 0 1 1 ?s)) (modularity ?s) = Some (1 / 72)"
    unfolding lp using d by simp
  show ?thesis
    by (intro conjI nz t iso d g)
qed


section \<open>Behaviour at concrete inputs\<close>

text \<open>
  C2, at the path a - b - c with weights 5 and 1, coarsened with every node alone in its
  community: the only edge between c and b has weight 1 (entry 3 of the level-0 arrays),
  and the induced adjacency of community 2 towards community 1 (entry 3 after
  \<open>zoomOut\<close>) carries 5, the weight read at \<open>weights[n]\<close> for the neighbour id \<open>n = 1\<close>.
\<close>

theorem zoomOut_induced_weight_chain:
  "neighborhood (UndirectedLouvainIndex 256 chain_graph weighted_options) = [1, 0, 2, 1]
   \<and> weights (UndirectedLouvainIndex 256 chain_graph weighted_options) = [5, 5, 1, 1]
   \<and> starts (zoomOut (UndirectedLouvainIndex 256 chain_graph weighted_options)) = [0, 1, 3, 4]
   \<and> neighborhood (zoomOut (UndirectedLouvainIndex 256 chain_graph weighted_options))
       = [1, 0, 2, 1]
   \<and> weights (zoomOut (UndirectedLouvainIndex 256 chain_graph weighted_options))
       = [5, 5, 1, 5]"
  by code_simp

text \<open>
  C4, at the directed graph a -> b, coarsened with every node alone: after construction
  the outgoing range of node 0 is the entry 0 (its edge to node 1); after \<open>zoomOut\<close> the
  outgoing range of node 0 is empty and its edge to node 1 lies in the incoming range.
\<close>

theorem directed_zoomOut_split_arrow:
  "outBounds (DirectedLouvainIndex arrow_graph defaults) 0 = (0, 1)
   \<and> inBounds (DirectedLouvainIndex arrow_graph defaults) 0 = (1, 1)
   \<and> outBounds (d_zoomOut (DirectedLouvainIndex arrow_graph defaults)) 0 = (0, 0)
   \<and> inBounds (d_zoomOut (DirectedLouvainIndex arrow_graph defaults)) 0 = (0, 1)
   \<and> d_neighborhood (d_zoomOut (DirectedLouvainIndex arrow_graph defaults)) = [1, 0]"
  by code_simp

text \<open>
  C9, at the graph with edges a - c and b - c, after b joined the community of a: the
  coarsened graph has two communities and \<open>zoomOut\<close> writes one induced entry for each
  (positions 0 and 1), but \<open>E\<close> and \<open>starts[C]\<close> are 4, the number of level-0 entries scanned:
  the block \<open>bounds(1)\<close> of community 1 runs over positions 1 to 3 and lists, after its
  entry towards community 0, two entries left from level 0.
\<close>

theorem zoomOut_starts_E_fork:
  "C (zoomOut (expensiveMove 1 0 (UndirectedLouvainIndex 256 fork_graph defaults))) = 2
   \<and> E (zoomOut (expensiveMove 1 0 (UndirectedLouvainIndex 256 fork_graph defaults))) = 4
   \<and> starts (zoomOut (expensiveMove 1 0 (UndirectedLouvainIndex 256 fork_graph defaults)))
       = [0, 1, 4, 4]
   \<and> neighborhood (zoomOut (expensiveMove 1 0 (UndirectedLouvainIndex 256 fork_graph defaults)))
       = [1, 0, 0, 1]
   \<and> weights (zoomOut (expensiveMove 1 0 (UndirectedLouvainIndex 256 fork_graph defaults)))
       = [2, 2, 1, 1]
   \<and> bounds (zoomOut (expensiveMove 1 0 (UndirectedLouvainIndex 256 fork_graph defaults))) 1
       = (1, 4)
   \<and> entries (zoomOut (expensiveMove 1 0 (UndirectedLouvainIndex 256 fork_graph defaults))) 1 4
       = [(0, 2), (0, 1), (1, 1)]"
  by code_simp


end
